theory Spec2Isabelle
  imports Main "HOL-Library.Word" "HOL-Library.Char_ord" "HOL-Library.List_Lexorder"
begin

unbundle bit_operations_syntax

section \<open>Values of the Go program\<close>

text \<open>
  The package \<open>log\<close> of the repository: \<open>FileWriter\<close> (a size-bounded rotating file
  sink), its package-level host identity, and \<open>MultiFileWriter\<close> (a fan-out over named
  writers). Go's \<open>int64\<close> and \<open>int\<close> (64 bits on the platforms the code names) are
  \<open>64 word\<close>, read as two's complement by \<open>sint\<close>; \<open>os.FileMode\<close> is \<open>32 word\<close>;
  a \<open>[]byte\<close> is a list of \<open>8 word\<close>; a Go \<open>string\<close> is a \<open>string\<close>.
\<close>

type_synonym byte = "8 word"
type_synonym int64 = "64 word"
type_synonym os_FileMode = "32 word"

subsection \<open>strconv: decimal formatting\<close>

fun utoa :: "nat \<Rightarrow> string" where
  "utoa n = (if n < 10 then [''0123456789'' ! n]
             else utoa (n div 10) @ [''0123456789'' ! (n mod 10)])"

declare utoa.simps [simp del]

definition Itoa :: "int \<Rightarrow> string" where
  "Itoa i = (if i < 0 then CHR ''-'' # utoa (nat (- i)) else utoa (nat i))"

text \<open>\<open>appendInt\<close> of package time: decimal, padded with zeros to a width.\<close>

definition appendInt :: "nat \<Rightarrow> nat \<Rightarrow> string" where
  "appendInt x width = replicate (width - length (utoa x)) CHR ''0'' @ utoa x"

subsection \<open>time: an instant and its layout \<open>.2006-01-02T15-04-05\<close>\<close>

record Date =
  Year :: nat
  Month :: nat
  Day :: nat
  Hour :: nat
  Minute :: nat
  Second :: nat

text \<open>
  A \<open>time.Time\<close> is an instant together with a location. The model keeps the two
  readings of the instant that the code can ask for: the calendar reading in the
  value's own location and the calendar reading in UTC. \<open>UTC\<close> moves the value to the
  UTC location; \<open>Format\<close> prints the reading in the value's location.
\<close>

datatype Time = Time (wall: Date) (utc: Date)

definition UTC :: "Time \<Rightarrow> Time" where
  "UTC t = Time (utc t) (utc t)"

definition stamp :: "Date \<Rightarrow> string" where
  "stamp d = ''.'' @ appendInt (Year d) 4 @ ''-'' @ appendInt (Month d) 2 @ ''-''
     @ appendInt (Day d) 2 @ ''T'' @ appendInt (Hour d) 2 @ ''-''
     @ appendInt (Minute d) 2 @ ''-'' @ appendInt (Second d) 2"

definition Format_stamp :: "Time \<Rightarrow> string" where
  "Format_stamp t = stamp (wall t)"

subsection \<open>path/filepath on a Unix path\<close>

definition IsPathSeparator :: "char \<Rightarrow> bool" where
  "IsPathSeparator c = (c = CHR ''/'')"

text \<open>
  \<open>filepath.Ext\<close> walks back from the end of the path until a separator; at the first
  dot it returns the suffix that starts there. \<open>ext_scan\<close> is that loop on the reversed
  path, with the characters already passed in \<open>acc\<close>.
\<close>

fun ext_scan :: "string \<Rightarrow> string \<Rightarrow> string" where
  "ext_scan [] acc = []"
| "ext_scan (c # r) acc =
     (if IsPathSeparator c then []
      else if c = CHR ''.'' then c # acc
      else ext_scan r (c # acc))"

definition Ext :: "string \<Rightarrow> string" where
  "Ext path = ext_scan (rev path) []"

text \<open>
  \<open>filepath.Base\<close>: the last element of the path, trailing separators dropped first;
  \<open>"."\<close> for the empty path and \<open>"/"\<close> for a path of separators only.
\<close>

definition Base :: "string \<Rightarrow> string" where
  "Base path =
     (if path = [] then ''.''
      else let p = dropWhile IsPathSeparator (rev path);
               b = rev (takeWhile (\<lambda>c. \<not> IsPathSeparator c) p)
           in if b = [] then ''/'' else b)"

text \<open>
  \<open>filepath.Dir\<close>: all but the last element. Of \<open>filepath.Clean\<close>, which \<open>Dir\<close> applies
  to that prefix, the model keeps the removal of trailing separators and the results
  \<open>"."\<close> and \<open>"/"\<close>; it does not rewrite \<open>.\<close> and \<open>..\<close> elements or doubled separators.
  The directory is only the key under which \<open>MkdirAll\<close> is asked.
\<close>

definition Dir :: "string \<Rightarrow> string" where
  "Dir path =
     (let d = dropWhile (\<lambda>c. \<not> IsPathSeparator c) (rev path);
          c = rev (dropWhile IsPathSeparator d)
      in if d = [] then ''.'' else if c = [] then ''/'' else c)"

text \<open>
  \<open>filepath.Split\<close> cuts a path after its last separator: the directory part keeps the
  separator, the file part has none. \<open>strings.HasPrefix\<close> tests for a prefix.
\<close>

definition Split :: "string \<Rightarrow> string \<times> string" where
  "Split path =
     (let file = rev (takeWhile (\<lambda>c. \<not> IsPathSeparator c) (rev path))
      in (take (length path - length file) path, file))"

definition HasPrefix :: "string \<Rightarrow> string \<Rightarrow> bool" where
  "HasPrefix s pre = (length pre \<le> length s \<and> take (length pre) s = pre)"

section \<open>FileWriter\<close>

subsection \<open>The struct and the package-level variables\<close>

text \<open>
  An open \<open>*os.File\<close>: the descriptor it holds and the name it was opened under
  (\<open>Name()\<close>). A nil \<open>*os.File\<close> is \<open>None\<close>.
\<close>

record File =
  fd :: nat
  Name :: string

text \<open>The field \<open>size\<close> of the struct is \<open>size_w\<close> here; \<open>mu\<close> is discussed below.\<close>

record FileWriter =
  Filename :: string
  MaxSize :: int64
  MaxBackups :: int64
  size_w :: int64
  "file" :: "File option"
  FileMode :: os_FileMode
  EnsureDir :: bool
  LocalTime :: bool
  HostName :: bool
  ProcessID :: bool

text \<open>
  \<open>var hostname, machine = func() ... ()\<close> and \<open>var pid = os.Getpid()\<close>: values fixed
  when the package is initialised, read by \<open>fileinfo\<close>.
\<close>

record globals =
  hostname :: string
  machine :: "128 word"
  pid :: int

subsection \<open>fileinfo\<close>

definition O_WRONLY :: int where "O_WRONLY = 1"
definition O_CREATE :: int where "O_CREATE = 64"
definition O_APPEND :: int where "O_APPEND = 1024"

definition fileinfo :: "globals \<Rightarrow> FileWriter \<Rightarrow> Time \<Rightarrow> string \<times> int \<times> os_FileMode" where
  "fileinfo g w now0 =
    (let now = (if \<not> LocalTime w then UTC now0 else now0);
         ext = Ext (Filename w);
         prefix = take (length (Filename w) - length ext) (Filename w);
         filename = prefix @ Format_stamp now;
         filename =
           (if HostName w then
              (if ProcessID w then filename @ ''.'' @ hostname g @ ''-'' @ Itoa (pid g) @ ext
               else filename @ ''.'' @ hostname g @ ext)
            else
              (if ProcessID w then filename @ ''.'' @ Itoa (pid g) @ ext
               else filename @ ext));
         flag = O_APPEND OR O_CREATE OR O_WRONLY;
         perm = FileMode w;
         perm = (if perm = 0 then 420 else perm)
     in (filename, flag, perm))"

section \<open>The operating system under the writer\<close>

text \<open>
  The calls of \<open>os\<close>, \<open>path/filepath\<close> and \<open>time\<close> act on a \<open>world\<close>. Its file system is
  a table from paths to regular files (through an inode number) and symbolic links (with
  their target). File contents live with the inode, so a descriptor keeps writing to a file
  whose name has been removed. A path is looked up as it is spelled; a world names each
  file by one spelling. A directory is not an entry of the table: it is there through the
  paths that lie below it, it is listed with the names of its directory, and it cannot be
  opened for writing, linked over or removed. A path whose last element is empty, \<open>.\<close> or
  \<open>..\<close> names a directory too.

  Failures are part of the world: \<open>OpenFile\<close> and \<open>MkdirAll\<close> fail on the paths in
  \<open>denied\<close>; a write fails, after a partial write, when it needs more than the \<open>space\<close>
  that is left; a write or a close on a descriptor that is not open fails; \<open>Remove\<close>,
  \<open>Lchown\<close> and \<open>Chown\<close> fail on a path that is no entry, and \<open>Symlink\<close> on one that is
  taken. \<open>timeNow\<close> reads the next value of \<open>clock\<close>. \<open>goroutines\<close> holds the housekeeping
  tasks that \<open>rotate\<close> has started with \<open>go\<close> and that have not run yet.
\<close>

datatype error = EACCES | EEXIST | EISDIR | ENOENT | ENOSPC | ELOOP | ErrClosed | ErrInvalid
  | ErrBadPattern | Other string

datatype panic = IndexOutOfRange | NilDereference

datatype node = Regular nat | Symlink string

text \<open>The arguments that \<open>rotate\<close> passes to its \<open>go func(oldfile, newname, filename, backups, processID)\<close>.\<close>

record task =
  oldfile :: "File option"
  newname :: string
  filename :: string
  backups :: int64
  processID :: bool

record world =
  entries :: "(string \<times> node) list"
  data :: "nat \<Rightarrow> byte list"
  mode :: "nat \<Rightarrow> os_FileMode"
  owner :: "string \<Rightarrow> int \<times> int"
  descriptors :: "(nat \<times> nat) list"
  next_fd :: nat
  stderr :: "byte list"
  space :: nat
  denied :: "string list"
  clock :: "nat \<Rightarrow> Time"
  ticks :: nat
  SUDO_UID :: int
  SUDO_GID :: int
  euid :: int
  goroutines :: "task list"

text \<open>
  \<open>SUDO_UID\<close> and \<open>SUDO_GID\<close> are the results of \<open>strconv.Atoi(os.Getenv(...))\<close>: 0
  when the variable is unset or is not a number.
\<close>

definition timeNow :: "world \<Rightarrow> Time \<times> world" where
  "timeNow s = (clock s (ticks s), s\<lparr>ticks := Suc (ticks s)\<rparr>)"

text \<open>An inode number that no path and no open descriptor refers to.\<close>

fun inodes_of :: "(string \<times> node) list \<Rightarrow> nat list" where
  "inodes_of [] = []"
| "inodes_of ((p, Regular i) # es) = i # inodes_of es"
| "inodes_of ((p, Symlink t) # es) = inodes_of es"

definition fresh_inode :: "world \<Rightarrow> nat" where
  "fresh_inode s = Suc (fold max (map snd (descriptors s) @ inodes_of (entries s)) 0)"

text \<open>
  \<open>holds\<close>: some path of the world lies below the path, which therefore is a directory
  with something in it. \<open>is_directory\<close>: the path can only name a directory.
\<close>

definition holds :: "world \<Rightarrow> string \<Rightarrow> bool" where
  "holds s path = list_ex (\<lambda>e. HasPrefix (fst e) (path @ ''/'')) (entries s)"

definition is_directory :: "world \<Rightarrow> string \<Rightarrow> bool" where
  "is_directory s path = (snd (Split path) \<in> {[], ''.'', ''..''} \<or> holds s path)"

text \<open>
  The kernel follows a symbolic link at the last element of a path that is opened: the
  target replaces the path when it is absolute and its last element otherwise. After
  40 links it gives up. \<open>follow n\<close> is that walk with \<open>n - 1\<close> links still allowed; it ends
  at a path that no link holds.
\<close>

fun follow :: "nat \<Rightarrow> (string \<times> node) list \<Rightarrow> string \<Rightarrow> error + string" where
  "follow 0 es path = Inl ELOOP"
| "follow (Suc n) es path =
     (case map_of es path of
        Some (Symlink target) \<Rightarrow>
          follow n es (if HasPrefix target ''/'' then target else fst (Split path) @ target)
      | Some (Regular i) \<Rightarrow> Inr path
      | None \<Rightarrow> Inr path)"

text \<open>
  \<open>os.OpenFile\<close>. The program opens every file with \<open>O_APPEND|O_CREATE|O_WRONLY\<close>: the
  path is followed through symbolic links; an existing regular file is opened as it is, a
  missing one is created empty with the given permission, a directory is refused. The
  \<open>*os.File\<close> carries the name the call was given. On failure the \<open>*os.File\<close> returned is
  nil.
\<close>

definition os_OpenFile :: "string \<Rightarrow> int \<Rightarrow> os_FileMode \<Rightarrow> world \<Rightarrow> (error + File) \<times> world" where
  "os_OpenFile name flag perm s =
     (if name \<in> set (denied s) then (Inl EACCES, s)
      else case follow 41 (entries s) name of
        Inl err \<Rightarrow> (Inl err, s)
      | Inr path \<Rightarrow>
          if path = [] then (Inl ENOENT, s)
          else if is_directory s path then (Inl EISDIR, s)
          else
            (case map_of (entries s) path of
               Some (Symlink t) \<Rightarrow> (Inl ELOOP, s)
             | Some (Regular i) \<Rightarrow>
                 (Inr \<lparr>fd = next_fd s, Name = name\<rparr>,
                  s\<lparr>descriptors := (next_fd s, i) # descriptors s, next_fd := Suc (next_fd s)\<rparr>)
             | None \<Rightarrow>
                 (if flag AND O_CREATE = 0 then (Inl ENOENT, s)
                  else
                    (Inr \<lparr>fd = next_fd s, Name = name\<rparr>,
                     s\<lparr>entries := (path, Regular (fresh_inode s)) # entries s,
                       data := (data s)(fresh_inode s := []),
                       mode := (mode s)(fresh_inode s := perm),
                       descriptors := (next_fd s, fresh_inode s) # descriptors s,
                       next_fd := Suc (next_fd s)\<rparr>))))"

text \<open>
  \<open>(*os.File).Write\<close> in append mode. A nil receiver gives \<open>ErrInvalid\<close>, a closed file
  \<open>ErrClosed\<close>. When the space left is too small, the bytes that fit are written and
  the call returns their number with \<open>ENOSPC\<close>.
\<close>

definition File_Write :: "File option \<Rightarrow> byte list \<Rightarrow> world \<Rightarrow> (nat \<times> error option) \<times> world" where
  "File_Write fo p s =
     (case fo of
        None \<Rightarrow> ((0, Some ErrInvalid), s)
      | Some f \<Rightarrow>
         (case map_of (descriptors s) (fd f) of
            None \<Rightarrow> ((0, Some ErrClosed), s)
          | Some i \<Rightarrow>
              if length p \<le> space s
              then ((length p, None),
                    s\<lparr>data := (data s)(i := data s i @ p), space := space s - length p\<rparr>)
              else ((space s, Some ENOSPC),
                    s\<lparr>data := (data s)(i := data s i @ take (space s) p), space := 0\<rparr>)))"

definition File_Close :: "File option \<Rightarrow> world \<Rightarrow> error option \<times> world" where
  "File_Close fo s =
     (case fo of
        None \<Rightarrow> (Some ErrInvalid, s)
      | Some f \<Rightarrow>
         (case map_of (descriptors s) (fd f) of
            None \<Rightarrow> (Some ErrClosed, s)
          | Some i \<Rightarrow> (None, s\<lparr>descriptors := filter (\<lambda>d. fst d \<noteq> fd f) (descriptors s)\<rparr>)))"

definition Stderr_Write :: "byte list \<Rightarrow> world \<Rightarrow> (nat \<times> error option) \<times> world" where
  "Stderr_Write p s = ((length p, None), s\<lparr>stderr := stderr s @ p\<rparr>)"

definition os_MkdirAll :: "string \<Rightarrow> os_FileMode \<Rightarrow> world \<Rightarrow> error option \<times> world" where
  "os_MkdirAll path perm s = (if path \<in> set (denied s) then (Some EACCES, s) else (None, s))"

text \<open>
  \<open>os.Remove\<close> takes a file or a link out of the table. A directory of the model holds
  something and is no entry: the call fails on it and changes nothing.
\<close>

definition os_Remove :: "string \<Rightarrow> world \<Rightarrow> error option \<times> world" where
  "os_Remove name s =
     (case map_of (entries s) name of
        None \<Rightarrow> (Some ENOENT, s)
      | Some n \<Rightarrow> (None, s\<lparr>entries := filter (\<lambda>e. fst e \<noteq> name) (entries s)\<rparr>))"

text \<open>
  \<open>os.Symlink\<close> makes a link under a name that is free. It fails on the empty name and
  for the empty target, on a name that is taken and on a name that names a directory.
\<close>

definition os_Symlink :: "string \<Rightarrow> string \<Rightarrow> world \<Rightarrow> error option \<times> world" where
  "os_Symlink target link s =
     (if link = [] \<or> target = [] then (Some ENOENT, s)
      else if map_of (entries s) link \<noteq> None \<or> is_directory s link then (Some EEXIST, s)
      else (None, s\<lparr>entries := (link, Symlink target) # entries s\<rparr>))"

text \<open>
  Ownership is kept per path. \<open>Lchown\<close> changes the entry itself; \<open>Chown\<close> follows
  symbolic links to a regular file.
\<close>

definition os_Lchown :: "string \<Rightarrow> int \<Rightarrow> int \<Rightarrow> world \<Rightarrow> error option \<times> world" where
  "os_Lchown name uid gid s =
     (case map_of (entries s) name of
        None \<Rightarrow> (Some ENOENT, s)
      | Some n \<Rightarrow> (None, s\<lparr>owner := (owner s)(name := (uid, gid))\<rparr>))"

definition os_Chown :: "string \<Rightarrow> int \<Rightarrow> int \<Rightarrow> world \<Rightarrow> error option \<times> world" where
  "os_Chown name uid gid s =
     (case follow 41 (entries s) name of
        Inl err \<Rightarrow> (Some err, s)
      | Inr path \<Rightarrow>
         (case map_of (entries s) path of
            None \<Rightarrow> (Some ENOENT, s)
          | Some n \<Rightarrow> (None, s\<lparr>owner := (owner s)(path := (uid, gid))\<rparr>)))"

subsection \<open>unicode/utf8: the first rune of a string\<close>

text \<open>
  \<open>utf8.DecodeRuneInString\<close>: the code point of the UTF-8 sequence at the head of the
  string and its width in bytes; \<open>RuneError\<close> with width 1 for a sequence that is not
  well-formed, and with width 0 for the empty string.
\<close>

definition RuneError :: nat where "RuneError = 65533"

definition DecodeRuneInString :: "string \<Rightarrow> nat \<times> nat" where
  "DecodeRuneInString s =
     (case map of_char s of
        [] \<Rightarrow> (RuneError, 0)
      | s0 # t \<Rightarrow>
          if s0 < 128 then (s0, 1)
          else if s0 < 194 \<or> 244 < s0 then (RuneError, 1)
          else
            (let sz = (if s0 < 224 then 2 else if s0 < 240 then 3 else 4 :: nat);
                 lo = (if s0 = 224 then 160 else if s0 = 240 then 144 else 128 :: nat);
                 hi = (if s0 = 237 then 159 else if s0 = 244 then 143 else 191 :: nat)
             in if length s < sz then (RuneError, 1)
                else if t ! 0 < lo \<or> hi < t ! 0 then (RuneError, 1)
                else if sz \<le> 2 then (s0 mod 32 * 64 + t ! 0 mod 64, 2)
                else if t ! 1 < 128 \<or> 191 < t ! 1 then (RuneError, 1)
                else if sz \<le> 3 then (s0 mod 16 * 4096 + t ! 0 mod 64 * 64 + t ! 1 mod 64, 3)
                else if t ! 2 < 128 \<or> 191 < t ! 2 then (RuneError, 1)
                else (s0 mod 8 * 262144 + t ! 0 mod 64 * 4096 + t ! 1 mod 64 * 64
                        + t ! 2 mod 64, 4)))"

subsection \<open>filepath.Match\<close>

text \<open>
  The pattern language of \<open>filepath.Match\<close> on Unix: \<open>*\<close> matches any run of
  non-separators, \<open>?\<close> one non-separator character, \<open>[...]\<close> one character of a class
  (ranges \<open>lo-hi\<close>, negated by a leading \<open>^\<close>), a backslash makes the next character
  literal, and every other character matches itself. A pattern that is not well-formed
  gives \<open>ErrBadPattern\<close>.

  \<open>getEsc\<close> reads one character of a class, possibly escaped, and returns it with the rest
  of the chunk. \<open>ranges\<close> is the loop \<open>for { ... nrange++ }\<close> over the ranges of one class,
  up to its closing bracket: it returns whether the rune \<open>r\<close> is in a range, and the rest
  of the chunk.
\<close>

definition getEsc :: "string \<Rightarrow> error + (nat \<times> string)" where
  "getEsc chunk0 =
     (if chunk0 = [] \<or> hd chunk0 = CHR ''-'' \<or> hd chunk0 = CHR '']'' then Inl ErrBadPattern
      else
        (let chunk = (if hd chunk0 = CHR 0x5C then tl chunk0 else chunk0)
         in if chunk = [] then Inl ErrBadPattern
            else
              (let (r, n) = DecodeRuneInString chunk;
                   nchunk = drop n chunk
               in if r = RuneError \<and> n = 1 then Inl ErrBadPattern
                  else if nchunk = [] then Inl ErrBadPattern
                  else Inr (r, nchunk))))"

function ranges :: "string \<Rightarrow> nat \<Rightarrow> bool \<Rightarrow> nat \<Rightarrow> error + (bool \<times> string)" where
  "ranges chunk r match nrange =
     (if chunk \<noteq> [] \<and> hd chunk = CHR '']'' \<and> 0 < nrange then Inr (match, tl chunk)
      else case getEsc chunk of
        Inl err \<Rightarrow> Inl err
      | Inr (lo, chunk1) \<Rightarrow>
          (case (if hd chunk1 = CHR ''-'' then getEsc (tl chunk1) else Inr (lo, chunk1)) of
             Inl err \<Rightarrow> Inl err
           | Inr (hi, chunk2) \<Rightarrow>
               ranges chunk2 r (match \<or> (lo \<le> r \<and> r \<le> hi)) (nrange + 1)))"
  by pat_completeness auto
termination
proof (relation "measure (\<lambda>(chunk, r, match, nrange). length chunk)")
  show "wf (measure (\<lambda>(chunk, r, match, nrange). length chunk))" by simp
next
  fix chunk :: string and r :: nat and match :: bool and nrange :: nat
    and x lo chunk1 y hi chunk2
  assume e1: "getEsc chunk = Inr x" and x: "(lo, chunk1) = x"
    and e2: "(if hd chunk1 = CHR ''-'' then getEsc (tl chunk1) else Inr (lo, chunk1)) = Inr y"
    and y: "(hi, chunk2) = y"
  have width: "0 < snd (DecodeRuneInString c)" if "c \<noteq> []" for c
    using that by (cases c) (auto simp: DecodeRuneInString_def Let_def)
  have shorter: "length c' < length c" if "getEsc c = Inr (a, c')" for c a c'
  proof -
    define d where "d = (if hd c = CHR 0x5C then tl c else c)"
    from that have c: "c \<noteq> []" and d: "d \<noteq> []"
      and c': "c' = drop (snd (DecodeRuneInString d)) d"
      by (auto simp: getEsc_def d_def Let_def split_beta split: if_splits)
    from d width have "length c' < length d" by (simp add: c')
    moreover have "length d \<le> length c" by (simp add: d_def)
    ultimately show ?thesis by simp
  qed
  from e1 x have 1: "length chunk1 < length chunk" by (auto intro: shorter)
  from e2 y have "length chunk2 \<le> length chunk1"
    by (auto split: if_splits dest!: shorter intro: less_imp_le order_trans [OF less_imp_le])
  with 1 show "((chunk2, r, match \<or> lo \<le> r \<and> r \<le> hi, nrange + 1), chunk, r, match, nrange)
      \<in> measure (\<lambda>(chunk, r, match, nrange). length chunk)"
    by simp
qed

declare ranges.simps [simp del]

text \<open>
  \<open>matchChunk\<close> matches a chunk (a pattern without \<open>*\<close> outside classes) against the
  start of a string, and returns the rest of the string and whether it matched.
  \<open>matchChunk_from\<close> is its loop, with the flag \<open>failed\<close>: after a failure the loop goes
  on to check the rest of the chunk, without reading the string.
\<close>

function matchChunk_from :: "string \<Rightarrow> string \<Rightarrow> bool \<Rightarrow> error + (string \<times> bool)" where
  "matchChunk_from [] s failed = Inr (if failed then ([], False) else (s, True))"
| "matchChunk_from (c # chunk) s failed0 =
     (let failed = (failed0 \<or> s = []) in
      if c = CHR ''['' then
        (let r = (if \<not> failed then fst (DecodeRuneInString s) else 0);
             s1 = (if \<not> failed then drop (snd (DecodeRuneInString s)) s else s);
             negated = (chunk \<noteq> [] \<and> hd chunk = CHR ''^'');
             chunk1 = (if negated then tl chunk else chunk)
         in case ranges chunk1 r False 0 of
              Inl err \<Rightarrow> Inl err
            | Inr (match, chunk2) \<Rightarrow> matchChunk_from chunk2 s1 (failed \<or> match = negated))
      else if c = CHR ''?'' then
        matchChunk_from chunk
          (if \<not> failed then drop (snd (DecodeRuneInString s)) s else s)
          (failed \<or> hd s = CHR ''/'')
      else if c = CHR 0x5C then
        (case chunk of
           [] \<Rightarrow> Inl ErrBadPattern
         | c1 # chunk1 \<Rightarrow>
             matchChunk_from chunk1 (if \<not> failed then tl s else s) (failed \<or> c1 \<noteq> hd s))
      else matchChunk_from chunk (if \<not> failed then tl s else s) (failed \<or> c \<noteq> hd s))"
  by pat_completeness auto
termination
proof (relation "measure (\<lambda>(chunk, s, failed). length chunk)")
  show "wf (measure (\<lambda>(chunk, s, failed). length chunk))" by simp
next
  fix c :: char and chunk s :: string and failed0 failed :: bool and r :: nat and s1 :: string
    and negated :: bool and chunk1 :: string and x match chunk2
  assume r: "ranges chunk1 r False 0 = Inr x" and x: "(match, chunk2) = x"
    and c1: "chunk1 = (if negated then tl chunk else chunk)"
  have "length c' < length c0" if "ranges c0 a m n = Inr (b, c')" for c0 a m n b c'
    using that
  proof (induction c0 a m n rule: ranges.induct)
    case (1 chunk r match nrange)
    show ?case
    proof (cases "chunk \<noteq> [] \<and> hd chunk = CHR '']'' \<and> 0 < nrange")
      case True
      with "1.prems" have "c' = tl chunk" by (subst (asm) ranges.simps) simp
      with True show ?thesis by (cases chunk) auto
    next
      case False
      from "1.prems" False obtain lo chunk1 where e1: "getEsc chunk = Inr (lo, chunk1)"
        by (subst (asm) ranges.simps) (auto split: sum.splits)
      from "1.prems" False e1 obtain hi chunk2
        where e2: "(if hd chunk1 = CHR ''-'' then getEsc (tl chunk1) else Inr (lo, chunk1))
            = Inr (hi, chunk2)"
        by (subst (asm) ranges.simps) (auto split: sum.splits if_splits)
      from "1.prems" False e1 e2
      have rec: "ranges chunk2 r (match \<or> (lo \<le> r \<and> r \<le> hi)) (nrange + 1) = Inr (b, c')"
        by (subst (asm) ranges.simps) (auto split: if_splits)
      from "1.IH" [OF False e1 refl e2 refl rec] have 2: "length c' < length chunk2" .
      have width: "0 < snd (DecodeRuneInString c)" if "c \<noteq> []" for c
        using that by (cases c) (auto simp: DecodeRuneInString_def Let_def)
      have shorter: "length d' \<le> length d" if "getEsc d = Inr (a, d')" for d a d'
        using that by (auto simp: getEsc_def Let_def split_beta split: if_splits
            intro: order_trans [OF length_drop [THEN eq_refl]])
      from e1 have "length chunk1 \<le> length chunk" by (rule shorter)
      moreover from e2 have "length chunk2 \<le> length chunk1"
        by (auto split: if_splits dest!: shorter intro: order_trans)
      ultimately show ?thesis using 2 by simp
    qed
  qed
  from this [of chunk1 r False 0 match chunk2] r x
  have "length chunk2 < length chunk1" by simp
  moreover have "length chunk1 \<le> length chunk" by (simp add: c1)
  ultimately show "((chunk2, s1, failed \<or> match = negated), c # chunk, s, failed0)
      \<in> measure (\<lambda>(chunk, s, failed). length chunk)"
    by simp
qed simp_all

definition matchChunk :: "string \<Rightarrow> string \<Rightarrow> error + (string \<times> bool)" where
  "matchChunk chunk s = matchChunk_from chunk s False"

text \<open>
  \<open>scanChunk\<close> takes the next chunk off a pattern: whether stars lead it, the chunk up to
  the next \<open>*\<close> that is outside a class and not escaped, and the rest. \<open>scan\<close> is its loop
  \<open>for i = 0; i < len(pattern); i++\<close> and returns the \<open>i\<close> at which it stops.
\<close>

fun scan :: "string \<Rightarrow> bool \<Rightarrow> nat" where
  "scan [] inrange = 0"
| "scan [c] inrange = (if c = CHR ''*'' \<and> \<not> inrange then 0 else 1)"
| "scan (c # d # pattern) inrange =
     (if c = CHR 0x5C then 2 + scan pattern inrange
      else if c = CHR ''['' then 1 + scan (d # pattern) True
      else if c = CHR '']'' then 1 + scan (d # pattern) False
      else if c = CHR ''*'' \<and> \<not> inrange then 0
      else 1 + scan (d # pattern) inrange)"

definition scanChunk :: "string \<Rightarrow> bool \<times> string \<times> string" where
  "scanChunk pattern0 =
     (let star = (pattern0 \<noteq> [] \<and> hd pattern0 = CHR ''*'');
          pattern = dropWhile (\<lambda>c. c = CHR ''*'') pattern0;
          i = scan pattern False
      in (star, take i pattern, drop i pattern))"

text \<open>
  \<open>skip\<close> is the loop of \<open>Match\<close> after a star: it looks for a match of the chunk after
  skipping \<open>i + 1\<close> bytes, none of them a separator; for the last chunk the match has to
  use up the name. \<open>valid_rest\<close> is the loop that checks the rest of a pattern once the
  match has failed.
\<close>

fun skip :: "string \<Rightarrow> bool \<Rightarrow> string \<Rightarrow> error + string option" where
  "skip chunk final [] = Inr None"
| "skip chunk final (c # name) =
     (if c = CHR ''/'' then Inr None
      else case matchChunk chunk name of
             Inl err \<Rightarrow> Inl err
           | Inr (t, ok) \<Rightarrow>
               if ok \<and> \<not> (final \<and> t \<noteq> []) then Inr (Some t) else skip chunk final name)"

function valid_rest :: "string \<Rightarrow> error + bool" where
  "valid_rest pattern =
     (if pattern = [] then Inr False
      else case scanChunk pattern of
        (star, chunk, rest) \<Rightarrow>
          (case matchChunk chunk [] of
             Inl err \<Rightarrow> Inl err
           | Inr r \<Rightarrow> valid_rest rest))"
  by pat_completeness auto
termination
proof -
  have shorter: "length rest < length pattern"
    if p: "pattern \<noteq> []" and sc: "(star, chunk, rest) = scanChunk pattern"
    for pattern star chunk rest
  proof -
    define q where "q = dropWhile (\<lambda>c. c = CHR ''*'') pattern"
    have rest: "rest = drop (scan q False) q"
      using sc by (auto simp: scanChunk_def Let_def q_def)
    show ?thesis
    proof (cases "hd pattern = CHR ''*''")
      case True
      with p have "length q < length pattern"
        by (cases pattern) (auto simp: q_def intro: le_imp_less_Suc length_dropWhile_le)
      then show ?thesis by (simp add: rest)
    next
      case False
      with p have q: "q = pattern" by (cases pattern) (auto simp: q_def)
      from p False have "0 < scan pattern False"
        by (cases pattern; cases "tl pattern") auto
      with p show ?thesis by (simp add: rest q)
    qed
  qed
  show ?thesis
    by (relation "measure length") (auto dest: shorter)
qed

declare valid_rest.simps [simp del]

function Match :: "string \<Rightarrow> string \<Rightarrow> error + bool" where
  "Match pattern name =
     (if pattern = [] then Inr (name = [])
      else case scanChunk pattern of
        (star, chunk, rest) \<Rightarrow>
          if star \<and> chunk = [] then Inr (CHR ''/'' \<notin> set name)
          else
            (case matchChunk chunk name of
               Inl err \<Rightarrow> Inl err
             | Inr (t, ok) \<Rightarrow>
                 if ok \<and> (t = [] \<or> rest \<noteq> []) then Match rest t
                 else if star then
                   (case skip chunk (rest = []) name of
                      Inl err \<Rightarrow> Inl err
                    | Inr (Some t1) \<Rightarrow> Match rest t1
                    | Inr None \<Rightarrow> valid_rest rest)
                 else valid_rest rest))"
  by pat_completeness auto
termination
proof -
  have shorter: "length rest < length pattern"
    if p: "pattern \<noteq> []" and sc: "(star, chunk, rest) = scanChunk pattern"
    for pattern star chunk rest
  proof -
    define q where "q = dropWhile (\<lambda>c. c = CHR ''*'') pattern"
    have rest: "rest = drop (scan q False) q"
      using sc by (auto simp: scanChunk_def Let_def q_def)
    show ?thesis
    proof (cases "hd pattern = CHR ''*''")
      case True
      with p have "length q < length pattern"
        by (cases pattern) (auto simp: q_def intro: le_imp_less_Suc length_dropWhile_le)
      then show ?thesis by (simp add: rest)
    next
      case False
      with p have q: "q = pattern" by (cases pattern) (auto simp: q_def)
      from p False have "0 < scan pattern False"
        by (cases pattern; cases "tl pattern") auto
      with p show ?thesis by (simp add: rest q)
    qed
  qed
  show ?thesis
    by (relation "measure (\<lambda>(pattern, name). length pattern)") (auto dest: shorter)
qed

declare Match.simps [simp del]

subsection \<open>filepath.Glob\<close>

text \<open>
  \<open>Glob\<close> checks the pattern, splits it into a directory and a file pattern, and matches
  the names of the directory against the file pattern; when the directory itself has
  pattern characters, it first finds the directories that match it. \<open>Readdirnames\<close> gives
  the names in a directory: the next element of every path of the world that lies in it.
  The directory is given as the prefix of its paths (the directory part of the pattern as
  \<open>Split\<close> returns it, or a directory found, with a separator), so that the path
  \<open>Join(dir, name)\<close> of a match is spelled as the world spells it. A directory that
  does not exist has no names.
\<close>

definition hasMeta :: "string \<Rightarrow> bool" where
  "hasMeta path = list_ex (\<lambda>c. c \<in> set [CHR ''*'', CHR ''?'', CHR ''['', CHR 0x5C]) path"

definition cleanGlobPath :: "string \<Rightarrow> string" where
  "cleanGlobPath path = (if path = [] then ''.'' else if path = ''/'' then path else butlast path)"

definition Readdirnames :: "world \<Rightarrow> string \<Rightarrow> string list" where
  "Readdirnames s dir =
     remdups (filter (\<lambda>n. n \<notin> {[], ''.'', ''..''})
       (map (\<lambda>e. takeWhile (\<lambda>c. \<not> IsPathSeparator c) (drop (length dir) (fst e)))
          (filter (\<lambda>e. HasPrefix (fst e) dir) (entries s))))"

fun glob_names :: "string \<Rightarrow> string \<Rightarrow> string list \<Rightarrow> string list \<Rightarrow> string list \<times> error option" where
  "glob_names dir pattern [] matches = (matches, None)"
| "glob_names dir pattern (n # names) matches =
     (case Match pattern n of
        Inl err \<Rightarrow> (matches, Some err)
      | Inr matched \<Rightarrow>
          glob_names dir pattern names (if matched then matches @ [dir @ n] else matches))"

definition glob :: "world \<Rightarrow> string \<Rightarrow> string \<Rightarrow> string list \<Rightarrow> string list \<times> error option" where
  "glob s dir pattern matches = glob_names dir pattern (sort (Readdirnames s dir)) matches"

fun glob_each :: "world \<Rightarrow> string list \<Rightarrow> string \<Rightarrow> string list \<Rightarrow> string list \<times> error option" where
  "glob_each s [] pattern matches = (matches, None)"
| "glob_each s (d # m) pattern matches =
     (case glob s (d @ ''/'') pattern matches of
        (matches1, Some err) \<Rightarrow> (matches1, Some err)
      | (matches1, None) \<Rightarrow> glob_each s m pattern matches1)"

definition os_Lstat :: "world \<Rightarrow> string \<Rightarrow> bool" where
  "os_Lstat s name = (map_of (entries s) name \<noteq> None \<or> holds s name \<or> name \<in> {''.'', ''/''})"

function globWithLimit :: "world \<Rightarrow> string \<Rightarrow> nat \<Rightarrow> string list \<times> error option" where
  "globWithLimit s pattern depth =
     (if depth = 10000 then ([], Some ErrBadPattern)
      else case Match pattern [] of
        Inl err \<Rightarrow> ([], Some err)
      | Inr matched \<Rightarrow>
          if \<not> hasMeta pattern then (if os_Lstat s pattern then [pattern] else [], None)
          else
            (let dir = cleanGlobPath (fst (Split pattern));
                 name = snd (Split pattern)
             in if \<not> hasMeta dir then glob s (fst (Split pattern)) name []
                else if dir = pattern then ([], Some ErrBadPattern)
                else case globWithLimit s dir (depth + 1) of
                       (m, Some err) \<Rightarrow> ([], Some err)
                     | (m, None) \<Rightarrow> glob_each s m name []))"
  by pat_completeness auto
termination
proof (relation "measure (\<lambda>(s, pattern, depth). length pattern)")
  show "wf (measure (\<lambda>(s, pattern, depth). length pattern))" by simp
next
  fix s :: world and pattern :: string and depth :: nat and dir :: string
  assume dir: "dir = cleanGlobPath (fst (Split pattern))" and meta: "\<not> \<not> hasMeta dir"
  have l: "length (fst (Split pattern)) \<le> length pattern" by (simp add: Split_def Let_def)
  from dir meta have "fst (Split pattern) \<noteq> []" "dir = butlast (fst (Split pattern))"
    by (auto simp: cleanGlobPath_def hasMeta_def split: if_splits)
  with l have "length dir < length pattern" by (cases "fst (Split pattern)") auto
  then show "((s, dir, depth + 1), s, pattern, depth)
      \<in> measure (\<lambda>(s, pattern, depth). length pattern)"
    by simp
qed

declare globWithLimit.simps [simp del]

definition filepath_Glob :: "string \<Rightarrow> world \<Rightarrow> string list \<times> error option" where
  "filepath_Glob pattern s = globWithLimit s pattern 0"

subsection \<open>create and rotate\<close>

text \<open>
  Every method takes the writer and the world and returns both as it leaves them. A
  method holds \<open>mu\<close> from its first statement to its return, so its body is one step;
  the goroutine that \<open>rotate\<close> starts is not run by it but added to \<open>goroutines\<close>.
  The assignment \<open>w.file, err = os.OpenFile(...)\<close> stores what \<open>OpenFile\<close> returned,
  also when that is nil.
\<close>

definition create :: "globals \<Rightarrow> FileWriter \<Rightarrow> world \<Rightarrow> error option \<times> FileWriter \<times> world" where
  "create g w s =
     (let (now, s1) = timeNow s;
          (name, flag, perm) = fileinfo g w now;
          (r, s2) = os_OpenFile name flag perm s1
      in case r of
           Inl err \<Rightarrow> (Some err, w\<lparr>file := None\<rparr>, s2)
         | Inr f \<Rightarrow>
            (let w1 = w\<lparr>file := Some f, size_w := 0\<rparr>;
                 s3 = snd (os_Remove (Filename w1) s2);
                 s4 = (if \<not> ProcessID w1
                       then snd (os_Symlink (Base (Name f)) (Filename w1) s3) else s3)
             in (None, w1, s4)))"

definition rotate :: "globals \<Rightarrow> FileWriter \<Rightarrow> world \<Rightarrow> error option \<times> FileWriter \<times> world" where
  "rotate g w s =
     (let old = file w;
          (now, s1) = timeNow s;
          (name, flag, perm) = fileinfo g w now;
          (r, s2) = os_OpenFile name flag perm s1
      in case r of
           Inl err \<Rightarrow> (Some err, w\<lparr>file := None\<rparr>, s2)
         | Inr f \<Rightarrow>
            (None, w\<lparr>file := Some f, size_w := 0\<rparr>,
             s2\<lparr>goroutines := goroutines s2 @
                  [\<lparr>oldfile = old, newname = Name f, filename = Filename w,
                    backups = MaxBackups w, processID = ProcessID w\<rparr>]\<rparr>))"

definition Rotate :: "globals \<Rightarrow> FileWriter \<Rightarrow> world \<Rightarrow> error option \<times> FileWriter \<times> world" where
  "Rotate g w s = rotate g w s"

subsection \<open>Write and Close\<close>

text \<open>
  \<open>ensure_open\<close> is the first block of \<open>Write\<close> for a writer with a file name (the
  branch \<open>w.file == nil\<close>, without the write to standard error); \<open>write_tail\<close> is the
  rest of \<open>Write\<close>, from \<open>n, err = w.file.Write(p)\<close> on.
\<close>

definition ensure_open :: "globals \<Rightarrow> FileWriter \<Rightarrow> world \<Rightarrow> error option \<times> FileWriter \<times> world" where
  "ensure_open g w s =
     (if file w = None then
        (let (err, s1) = (if EnsureDir w then os_MkdirAll (Dir (Filename w)) 493 s
                          else (None, s))
         in if err \<noteq> None then (err, w, s1) else create g w s1)
      else (None, w, s))"

definition write_tail :: "globals \<Rightarrow> FileWriter \<Rightarrow> byte list \<Rightarrow> world
    \<Rightarrow> (nat \<times> error option) \<times> FileWriter \<times> world" where
  "write_tail g w p s =
     (let ((n, err), s1) = File_Write (file w) p s
      in if err \<noteq> None then ((n, err), w, s1)
         else
           (let w1 = w\<lparr>size_w := size_w w + word_of_nat n\<rparr>
            in if 0 <s MaxSize w1 \<and> MaxSize w1 <s size_w w1 \<and> Filename w1 \<noteq> []
               then (let (err, w2, s2) = rotate g w1 s1 in ((n, err), w2, s2))
               else ((n, None), w1, s1)))"

definition Write :: "globals \<Rightarrow> FileWriter \<Rightarrow> byte list \<Rightarrow> world
    \<Rightarrow> (nat \<times> error option) \<times> FileWriter \<times> world" where
  "Write g w p s =
     (if file w = None \<and> Filename w = [] then
        (let (r, s1) = Stderr_Write p s in (r, w, s1))
      else
        (let (err, w0, s0) = ensure_open g w s
         in if err \<noteq> None then ((0, err), w0, s0) else write_tail g w0 p s0))"

definition Close :: "FileWriter \<Rightarrow> world \<Rightarrow> error option \<times> FileWriter \<times> world" where
  "Close w s =
     (case file w of
        None \<Rightarrow> (None, w, s)
      | Some f \<Rightarrow>
          (let (err, s1) = File_Close (Some f) s
           in (err, w\<lparr>file := None, size_w := 0\<rparr>, s1)))"

subsection \<open>The housekeeping goroutine of rotate\<close>

text \<open>
  The loop \<open>for i := 0; i < len(names)-backups-1; i++ { os.Remove(names[i]) }\<close> runs
  over the indices below its bound; an index past the slice panics, with the removals
  done so far in place.
\<close>

fun remove_at :: "nat list \<Rightarrow> string list \<Rightarrow> world \<Rightarrow> panic option \<times> world" where
  "remove_at [] names s = (None, s)"
| "remove_at (i # is) names s =
     (if i < length names then remove_at is names (snd (os_Remove (names ! i) s))
      else (Some IndexOutOfRange, s))"

text \<open>
  \<open>relink\<close> is the goroutine up to its \<open>Chown\<close> calls: it closes the old file, removes
  the base path, links it to the new file unless the process id is part of the names, and
  hands the link and the new file to the user named by \<open>SUDO_UID\<close> and \<open>SUDO_GID\<close> when
  the process runs as root. \<open>housekeeping\<close> goes on to remove the oldest backups. Every
  error of these calls is discarded.
\<close>

definition relink :: "task \<Rightarrow> world \<Rightarrow> world" where
  "relink t s =
     (let s1 = (if oldfile t \<noteq> None then snd (File_Close (oldfile t) s) else s);
          s2 = snd (os_Remove (filename t) s1);
          s3 = (if \<not> processID t
                then snd (os_Symlink (Base (newname t)) (filename t) s2) else s2);
          uid = SUDO_UID s3;
          gid = SUDO_GID s3
      in if uid \<noteq> 0 \<and> gid \<noteq> 0 \<and> euid s3 = 0
         then snd (os_Chown (newname t) uid gid (snd (os_Lchown (filename t) uid gid s3)))
         else s3)"

definition housekeeping :: "task \<Rightarrow> world \<Rightarrow> panic option \<times> world" where
  "housekeeping t s =
     (let s4 = relink t s;
          ext = Ext (filename t);
          pattern = take (length (filename t) - length ext) (filename t) @ ''.20*'' @ ext;
          (names, err) = filepath_Glob pattern s4
      in if 0 < length names
         then (let names = sort names;
                   bound = sint (word_of_nat (length names) - backups t - 1 :: int64)
               in remove_at [0 ..< nat bound] names s4)
         else (None, s4))"

text \<open>The scheduler runs the oldest pending goroutine to its end.\<close>

definition run_goroutine :: "world \<Rightarrow> panic option \<times> world" where
  "run_goroutine s =
     (case goroutines s of
        [] \<Rightarrow> (None, s)
      | t # ts \<Rightarrow> housekeeping t (s\<lparr>goroutines := ts\<rparr>))"

section \<open>Host identity\<close>







section \<open>MultiFileWriter\<close>

text \<open>
  An \<open>Entry\<close> carries its bytes and its destination tags (a nil slice is the empty list);
  \<open>FileWriter.WriteEntry\<close> writes the bytes. A \<open>Writer\<close> is any value with \<open>WriteEntry\<close>;
  it may also be an \<open>io.Closer\<close>. Writers act on a state \<open>'s\<close> of their own choice;
  \<open>FileWriter_at\<close> is a \<open>*FileWriter\<close> kept at an address of a store. The map \<open>Writes\<close> is
  the list of its entries in the order in which a \<open>range\<close> visits them (any order), looked
  up with \<open>map_of\<close>; a nil map is the empty list; a nil interface value stored in the map is
  \<open>None\<close>. Calling \<open>WriteEntry\<close> on a nil interface value panics. The Go variable \<open>find\<close>
  is \<open>found\<close> here.
\<close>

record Entry =
  buf :: "byte list"
  loggerFiles :: "string list"

definition FileWriter_WriteEntry :: "globals \<Rightarrow> FileWriter \<Rightarrow> Entry \<Rightarrow> world
    \<Rightarrow> (nat \<times> error option) \<times> FileWriter \<times> world" where
  "FileWriter_WriteEntry g w e s = Write g w (buf e) s"

record 's Writer =
  WriteEntry :: "Entry \<Rightarrow> 's \<Rightarrow> (nat \<times> error option) \<times> 's"
  Closer :: "('s \<Rightarrow> error option \<times> 's) option"

definition FileWriter_at :: "globals \<Rightarrow> nat \<Rightarrow> ((nat \<Rightarrow> FileWriter) \<times> world) Writer" where
  "FileWriter_at g a =
     \<lparr>WriteEntry = (\<lambda>e (h, s). let (r, w, s1) = FileWriter_WriteEntry g (h a) e s
                                in (r, (h(a := w), s1))),
      Closer = Some (\<lambda>(h, s). let (err, w, s1) = Close (h a) s in (err, (h(a := w), s1)))\<rparr>"

record 's MultiFileWriter =
  Writes :: "(string \<times> 's Writer option) list"

fun close_each :: "(string \<times> 's Writer option) list \<Rightarrow> error option \<Rightarrow> 's
    \<Rightarrow> error option \<times> 's" where
  "close_each [] err s = (err, s)"
| "close_each ((name, None) # rest) err s = close_each rest err s"
| "close_each ((name, Some writer) # rest) err s =
     (case Closer writer of
        None \<Rightarrow> close_each rest err s
      | Some closer \<Rightarrow>
          (let (err1, s1) = closer s
           in close_each rest (if err1 \<noteq> None then err1 else err) s1))"

definition MultiFileWriter_Close :: "'s MultiFileWriter \<Rightarrow> 's \<Rightarrow> error option \<times> 's" where
  "MultiFileWriter_Close w s = (if Writes w = [] then (None, s) else close_each (Writes w) None s)"

fun route :: "(string \<times> 's Writer option) list \<Rightarrow> Entry \<Rightarrow> string list
    \<Rightarrow> bool \<times> nat \<times> error option \<Rightarrow> 's \<Rightarrow> panic + ((bool \<times> nat \<times> error option) \<times> 's)" where
  "route m e [] acc s = Inr (acc, s)"
| "route m e (loggerFileName # rest) (found, n, err) s =
     (case map_of m loggerFileName of
        None \<Rightarrow> route m e rest (found, n, err) s
      | Some None \<Rightarrow> Inl NilDereference
      | Some (Some writer) \<Rightarrow>
          (let ((n1, err1), s1) = WriteEntry writer e s
           in route m e rest (True, n1, if err1 \<noteq> None \<and> err = None then err1 else err) s1))"

definition MultiFileWriter_WriteEntry :: "'s MultiFileWriter \<Rightarrow> Entry \<Rightarrow> 's
    \<Rightarrow> panic + ((nat \<times> error option) \<times> 's)" where
  "MultiFileWriter_WriteEntry w e s =
     (if length (loggerFiles e) < 1 then Inr ((0, None), s)
      else if length (Writes w) < 1 then Inr ((0, None), s)
      else
        (case route (Writes w) e (loggerFiles e) (False, 0, None) s of
           Inl p \<Rightarrow> Inl p
         | Inr ((found, n, err), s1) \<Rightarrow>
             if \<not> found then
               (case map_of (Writes w) ''default'' of
                  None \<Rightarrow> Inr ((n, err), s1)
                | Some None \<Rightarrow> Inl NilDereference
                | Some (Some writer) \<Rightarrow>
                    (let ((n1, err1), s2) = WriteEntry writer e s1
                     in Inr ((n1, if err1 \<noteq> None \<and> err = None then err1 else err), s2)))
             else Inr ((n, err), s1)))"

section \<open>Terms of the specification\<close>

text \<open>
  The optional segment of a backup name between the timestamp and the extension, as the
  specification lists it: \<open>.<hostlabel>\<close>, \<open>.<pid>\<close>, \<open>.<hostlabel>-<pid>\<close> or nothing.
\<close>

definition host_pid_segment :: "globals \<Rightarrow> FileWriter \<Rightarrow> string" where
  "host_pid_segment g w =
     (if HostName w \<and> ProcessID w then ''.'' @ hostname g @ ''-'' @ Itoa (pid g)
      else if HostName w then ''.'' @ hostname g
      else if ProcessID w then ''.'' @ Itoa (pid g)
      else [])"

text \<open>
  The name under which \<open>create\<close> and \<open>rotate\<close> open a file when they start in state \<open>s\<close>.
\<close>

definition next_name :: "globals \<Rightarrow> FileWriter \<Rightarrow> world \<Rightarrow> string" where
  "next_name g w s = fst (fileinfo g w (clock s (ticks s)))"

text \<open>
  A name that \<open>OpenFile\<close> opens or creates: it is not denied, it names no directory and
  no symbolic link holds it. \<open>opened\<close> is the world after that call: the file of that name
  has a new descriptor, and has been created, empty and with the given permission, if there
  was none; \<open>opened_inode\<close> is the inode of that file. \<open>wrote\<close> is the world after bytes
  have been appended to the file of an inode.
\<close>

definition available :: "world \<Rightarrow> string \<Rightarrow> bool" where
  "available s name =
     (name \<notin> set (denied s) \<and> \<not> is_directory s name
      \<and> (case map_of (entries s) name of
            Some (Symlink t) \<Rightarrow> False
          | Some (Regular i) \<Rightarrow> True
          | None \<Rightarrow> True))"

definition opened :: "string \<Rightarrow> os_FileMode \<Rightarrow> world \<Rightarrow> world" where
  "opened name perm s =
     (case map_of (entries s) name of
        Some (Regular i) \<Rightarrow>
          s\<lparr>descriptors := (next_fd s, i) # descriptors s, next_fd := Suc (next_fd s)\<rparr>
      | Some (Symlink t) \<Rightarrow> s
      | None \<Rightarrow>
          s\<lparr>entries := (name, Regular (fresh_inode s)) # entries s,
            data := (data s)(fresh_inode s := []),
            mode := (mode s)(fresh_inode s := perm),
            descriptors := (next_fd s, fresh_inode s) # descriptors s,
            next_fd := Suc (next_fd s)\<rparr>)"

definition opened_inode :: "string \<Rightarrow> world \<Rightarrow> nat" where
  "opened_inode name s =
     (case map_of (entries s) name of Some (Regular i) \<Rightarrow> i | Some (Symlink t) \<Rightarrow> fresh_inode s
      | None \<Rightarrow> fresh_inode s)"

definition wrote :: "nat \<Rightarrow> byte list \<Rightarrow> world \<Rightarrow> world" where
  "wrote i p s = s\<lparr>data := (data s)(i := data s i @ p), space := space s - length p\<rparr>"

text \<open>
  What a rotation or a first open leaves when the new name is available: the writer holds
  the new file under the descriptor that was next, with a counter of 0; after \<open>rotate\<close>
  the world has the new file open and one more goroutine, \<open>started\<close>; after \<open>create\<close> it
  has the new file open and, at the base path, the link to the new file's base name, or
  nothing when the process id is part of the names.
\<close>

definition perm_of :: "FileWriter \<Rightarrow> os_FileMode" where
  "perm_of w = (if FileMode w = 0 then 420 else FileMode w)"

definition reopened :: "globals \<Rightarrow> FileWriter \<Rightarrow> world \<Rightarrow> FileWriter" where
  "reopened g w s = w\<lparr>file := Some \<lparr>fd = next_fd s, Name = next_name g w s\<rparr>, size_w := 0\<rparr>"

definition started :: "globals \<Rightarrow> FileWriter \<Rightarrow> world \<Rightarrow> task" where
  "started g w s =
     \<lparr>oldfile = file w, newname = next_name g w s, filename = Filename w,
      backups = MaxBackups w, processID = ProcessID w\<rparr>"

definition rotated :: "globals \<Rightarrow> FileWriter \<Rightarrow> world \<Rightarrow> world" where
  "rotated g w s =
     (opened (next_name g w s) (perm_of w) (s\<lparr>ticks := Suc (ticks s)\<rparr>))
       \<lparr>goroutines := goroutines s @ [started g w s]\<rparr>"

definition base_link :: "globals \<Rightarrow> FileWriter \<Rightarrow> world \<Rightarrow> node option" where
  "base_link g w s = (if ProcessID w then None else Some (Symlink (Base (next_name g w s))))"

definition created :: "globals \<Rightarrow> FileWriter \<Rightarrow> world \<Rightarrow> world" where
  "created g w s =
     (let s2 = opened (next_name g w s) (perm_of w) (s\<lparr>ticks := Suc (ticks s)\<rparr>)
      in s2\<lparr>entries :=
              (case base_link g w s of None \<Rightarrow> [] | Some l \<Rightarrow> [(Filename w, l)])
              @ filter (\<lambda>e. fst e \<noteq> Filename w) (entries s2)\<rparr>)"

text \<open>
  The byte counter that the next write adds to: \<open>size\<close> for an open writer, 0 for a
  closed one, whose counter \<open>create\<close> resets before the write. \<open>WriteAll\<close> is a sequence
  of calls of \<open>Write\<close>, with the result of each.
\<close>

definition counter :: "FileWriter \<Rightarrow> int64" where
  "counter w = (if file w = None then 0 else size_w w)"

fun WriteAll :: "globals \<Rightarrow> FileWriter \<Rightarrow> byte list list \<Rightarrow> world
    \<Rightarrow> (nat \<times> error option) list \<times> FileWriter \<times> world" where
  "WriteAll g w [] s = ([], w, s)"
| "WriteAll g w (p # ps) s =
     (let (r, w1, s1) = Write g w p s;
          (rs, w2, s2) = WriteAll g w1 ps s1
      in (r # rs, w2, s2))"

text \<open>
  The date that \<open>fileinfo\<close> prints for a rotation time, the dates the layout prints in
  its fixed width of 20 characters, and the chronological order of dates.
\<close>

definition fits_layout :: "Date \<Rightarrow> bool" where
  "fits_layout d = (Year d < 10000 \<and> Month d < 100 \<and> Day d < 100 \<and> Hour d < 100
      \<and> Minute d < 100 \<and> Second d < 100)"

definition rotation_date :: "FileWriter \<Rightarrow> Time \<Rightarrow> Date" where
  "rotation_date w t = wall (if LocalTime w then t else UTC t)"

definition earlier :: "Date \<Rightarrow> Date \<Rightarrow> bool" where
  "earlier a b =
     (Year a < Year b \<or> (Year a = Year b \<and>
     (Month a < Month b \<or> (Month a = Month b \<and>
     (Day a < Day b \<or> (Day a = Day b \<and>
     (Hour a < Hour b \<or> (Hour a = Hour b \<and>
     (Minute a < Minute b \<or> (Minute a = Minute b \<and> Second a < Second b))))))))))"

text \<open>
  The glob pattern of the backups of a base path, and the paths that match it in a world,
  in lexicographic order.
\<close>

definition backup_pattern :: "string \<Rightarrow> string" where
  "backup_pattern fn = take (length fn - length (Ext fn)) fn @ ''.20*'' @ Ext fn"

definition backups_on_disk :: "string \<Rightarrow> world \<Rightarrow> string list" where
  "backups_on_disk fn s = sort (fst (filepath_Glob (backup_pattern fn) s))"




text \<open>
  The first and the last error of a list of results, and the byte count of the last result.
  \<open>selected\<close> are the writers the specification names for an entry: the writer of every tag
  that the map holds, in the order of the tags, or else the writer \<open>"default"\<close> if the map
  holds one. \<open>dispatch_all\<close> calls \<open>WriteEntry\<close> on each in turn and collects the results;
  \<open>closers\<close> are the \<open>Close\<close> methods of the writers of a map and \<open>close_all\<close> calls each.
\<close>

fun first_error :: "error option list \<Rightarrow> error option" where
  "first_error [] = None"
| "first_error (r # rs) = (if r \<noteq> None then r else first_error rs)"

definition last_error :: "error option list \<Rightarrow> error option" where
  "last_error rs = first_error (rev rs)"

definition last_count :: "(nat \<times> error option) list \<Rightarrow> nat" where
  "last_count rs = (case rev rs of [] \<Rightarrow> 0 | r # rest \<Rightarrow> fst r)"

definition selected :: "(string \<times> 's Writer option) list \<Rightarrow> string list \<Rightarrow> 's Writer option list" where
  "selected m tags =
     (case List.map_filter (map_of m) tags of
        [] \<Rightarrow> (case map_of m ''default'' of None \<Rightarrow> [] | Some writer \<Rightarrow> [writer])
      | hit # hits \<Rightarrow> hit # hits)"

fun dispatch_all :: "'s Writer option list \<Rightarrow> Entry \<Rightarrow> 's
    \<Rightarrow> panic + ((nat \<times> error option) list \<times> 's)" where
  "dispatch_all [] e s = Inr ([], s)"
| "dispatch_all (None # ws) e s = Inl NilDereference"
| "dispatch_all (Some writer # ws) e s =
     (let (r, s1) = WriteEntry writer e s
      in case dispatch_all ws e s1 of
           Inl p \<Rightarrow> Inl p
         | Inr (rs, s2) \<Rightarrow> Inr (r # rs, s2))"

definition closers :: "(string \<times> 's Writer option) list \<Rightarrow> ('s \<Rightarrow> error option \<times> 's) list" where
  "closers m = List.map_filter (\<lambda>(name, w). case w of None \<Rightarrow> None | Some writer \<Rightarrow> Closer writer) m"

fun close_all :: "('s \<Rightarrow> error option \<times> 's) list \<Rightarrow> 's \<Rightarrow> error option list \<times> 's" where
  "close_all [] s = ([], s)"
| "close_all (c # cs) s =
     (let (r, s1) = c s; (rs, s2) = close_all cs s1 in (r # rs, s2))"

section \<open>Concrete values\<close>

definition this_process :: globals where
  "this_process = \<lparr>hostname = ''web1'', machine = 0, pid = 4242\<rparr>"

definition server_log :: FileWriter where
  "server_log =
     \<lparr>Filename = ''/var/log/foo/server.log'', MaxSize = 100, MaxBackups = 2, size_w = 0,
      file = None, FileMode = 0, EnsureDir = False, LocalTime = False, HostName = False,
      ProcessID = False\<rparr>"

definition server_name :: string where
  "server_name = ''/var/log/foo/server.2016-11-04T18-30-00.log''"

definition nov4 :: Date where
  "nov4 = \<lparr>Year = 2016, Month = 11, Day = 4, Hour = 18, Minute = 30, Second = 0\<rparr>"

definition nov4_local :: Date where
  "nov4_local = \<lparr>Year = 2016, Month = 11, Day = 4, Hour = 19, Minute = 30, Second = 0\<rparr>"

definition clock_by_second :: "nat \<Rightarrow> Time" where
  "clock_by_second k = Time (nov4_local\<lparr>Second := k\<rparr>) (nov4\<lparr>Second := k\<rparr>)"

definition empty_world :: world where
  "empty_world =
     \<lparr>entries = [], data = (\<lambda>i. []), mode = (\<lambda>i. 0), owner = (\<lambda>p. (0, 0)),
      descriptors = [], next_fd = 3, stderr = [], space = 1000, denied = [],
      clock = clock_by_second, ticks = 0, SUDO_UID = 0, SUDO_GID = 0, euid = 1000,
      goroutines = []\<rparr>"

definition open_log :: FileWriter where
  "open_log = server_log\<lparr>file := Some \<lparr>fd = 3, Name = ''/var/log/foo/server.2016-11-04T18-29-00.log''\<rparr>, size_w := 60\<rparr>"

definition open_world :: world where
  "open_world = empty_world\<lparr>entries := [(''/var/log/foo/server.2016-11-04T18-29-00.log'', Regular 1)],
      data := (\<lambda>i. []), descriptors := [(3, 1)], next_fd := 4\<rparr>"

text \<open>
  The example of the specification: base path \<open>app.log\<close>, size limit 100, retention 2.
  \<open>world1\<close> is the world after a first write of 60 bytes, \<open>world2\<close> after a second.
\<close>

definition app_log :: FileWriter where
  "app_log =
     \<lparr>Filename = ''app.log'', MaxSize = 100, MaxBackups = 2, size_w = 0,
      file = None, FileMode = 0, EnsureDir = False, LocalTime = False, HostName = False,
      ProcessID = False\<rparr>"

definition backup0 :: string where "backup0 = ''app.2016-11-04T18-30-00.log''"
definition backup1 :: string where "backup1 = ''app.2016-11-04T18-30-01.log''"
definition backup2 :: string where "backup2 = ''app.2016-11-04T18-30-02.log''"

definition app_log1 :: FileWriter where
  "app_log1 = app_log\<lparr>file := Some \<lparr>fd = 3, Name = backup0\<rparr>, size_w := 60\<rparr>"

definition world1 :: world where
  "world1 = empty_world
     \<lparr>entries := [(''app.log'', Symlink backup0), (backup0, Regular 1)],
      data := (\<lambda>i. [])(1 := replicate 60 7), mode := (\<lambda>i. 0)(1 := 420),
      descriptors := [(3, 1)], next_fd := 4, space := 940, ticks := 1\<rparr>"

text \<open>A disk that is nearly full, with a regular file at the base path.\<close>

definition full_world :: world where
  "full_world = empty_world\<lparr>entries := [(''app.log'', Regular 5)], space := 10\<rparr>"

definition app_log2 :: FileWriter where
  "app_log2 = app_log\<lparr>file := Some \<lparr>fd = 4, Name = backup1\<rparr>, size_w := 0\<rparr>"

definition rotation1 :: task where
  "rotation1 = \<lparr>oldfile = Some \<lparr>fd = 3, Name = backup0\<rparr>, newname = backup1,
      filename = ''app.log'', backups = 2, processID = False\<rparr>"

definition world2 :: world where
  "world2 = empty_world
     \<lparr>entries := [(backup1, Regular 2), (''app.log'', Symlink backup0), (backup0, Regular 1)],
      data := (\<lambda>i. [])(1 := replicate 120 7, 2 := []), mode := (\<lambda>i. 0)(1 := 420, 2 := 420),
      descriptors := [(4, 2), (3, 1)], next_fd := 5, space := 880, ticks := 2,
      goroutines := [rotation1]\<rparr>"

text \<open>A directory that holds five backups of \<open>app.log\<close> and two other paths.\<close>

definition crowded_world :: world where
  "crowded_world = world2
     \<lparr>entries :=
        [(''app.2014-02-01T00-00-00.log'', Regular 7), (backup1, Regular 2),
         (''app.log'', Symlink backup0), (backup0, Regular 1),
         (''app.2015-06-01T09-00-00.log'', Regular 8), (''notes.txt'', Regular 9),
         (''app.2013-12-31T23-59-59.log'', Regular 10)]\<rparr>"


definition recorder :: "string \<Rightarrow> nat \<Rightarrow> error option \<Rightarrow> (string list) Writer" where
  "recorder name n err =
     \<lparr>WriteEntry = (\<lambda>e s. ((n, err), s @ [name])),
      Closer = Some (\<lambda>s. (err, s @ [''close '' @ name]))\<rparr>"

definition fanout :: "(string list) MultiFileWriter" where
  "fanout = \<lparr>Writes = [(''a'', Some (recorder ''a'' 5 None)),
                       (''default'', Some (recorder ''default'' 7 None))]\<rparr>"

definition failing_pair :: "(string list) MultiFileWriter" where
  "failing_pair = \<lparr>Writes = [(''a'', Some (recorder ''a'' 0 (Some (Other ''a'')))),
                             (''b'', Some (recorder ''b'' 0 (Some (Other ''b''))))]\<rparr>"

section \<open>Properties of the path functions\<close>

lemma ext_scan_suffix: "\<exists>pre. rev r @ acc = pre @ ext_scan r acc"
proof (induction r arbitrary: acc)
  case Nil
  show ?case by simp
next
  case (Cons c r)
  show ?case
  proof (cases "IsPathSeparator c \<or> c = CHR ''.''")
    case True
    then show ?thesis by auto
  next
    case False
    from Cons.IH [of "c # acc"] False show ?thesis by simp
  qed
qed

lemma Ext_suffix: "\<exists>pre. path = pre @ Ext path"
  using ext_scan_suffix [of "rev path" "[]"] by (simp add: Ext_def)

lemma prefix_Ext: "take (length path - length (Ext path)) path @ Ext path = path"
proof -
  obtain pre where p: "path = pre @ Ext path"
    using Ext_suffix by blast
  have "take (length path - length (Ext path)) path = pre"
    by (subst (3) p, subst (1) p) simp
  with p show ?thesis by simp
qed

text \<open>An extension is empty or a dot followed by characters that are neither dots nor separators.\<close>

lemma ext_scan_shape:
  "CHR ''.'' \<notin> set acc \<Longrightarrow> CHR ''/'' \<notin> set acc \<Longrightarrow>
   ext_scan r acc = [] \<or> (\<exists>a. ext_scan r acc = CHR ''.'' # a \<and> CHR ''.'' \<notin> set a \<and> CHR ''/'' \<notin> set a)"
  by (induction r arbitrary: acc) (auto simp: IsPathSeparator_def)

lemma Ext_shape:
  "Ext path = [] \<or> (\<exists>a. Ext path = CHR ''.'' # a \<and> CHR ''.'' \<notin> set a \<and> CHR ''/'' \<notin> set a)"
  using ext_scan_shape [of "[]" "rev path"] by (simp add: Ext_def)

lemma Ext_no_separator: "CHR ''/'' \<notin> set (Ext path)"
  using Ext_shape [of path] by auto

lemma Split_append: "fst (Split path) @ snd (Split path) = path"
proof -
  let ?f = "rev (takeWhile (\<lambda>c. \<not> IsPathSeparator c) (rev path))"
  have "\<exists>pre. path = pre @ ?f"
    by (metis rev_append rev_rev_ident takeWhile_dropWhile_id)
  then obtain pre where p: "path = pre @ ?f" ..
  have "take (length path - length ?f) path = pre"
    by (subst (3) p, subst (1) p) simp
  with p show ?thesis by (simp add: Split_def Let_def)
qed

lemma Split_file_no_separator: "CHR ''/'' \<notin> set (snd (Split path))"
  using set_takeWhileD [of "CHR ''/''" "\<lambda>c. \<not> IsPathSeparator c" "rev path"]
  by (auto simp: Split_def Let_def IsPathSeparator_def)

lemma Split_dir_shape: "fst (Split path) = [] \<or> last (fst (Split path)) = CHR ''/''"
proof -
  let ?d = "dropWhile (\<lambda>c. \<not> IsPathSeparator c) (rev path)"
  have "rev ?d @ snd (Split path) = path"
    by (simp add: Split_def Let_def flip: rev_append)
  with Split_append [of path] have d: "fst (Split path) = rev ?d" by (metis append_same_eq)
  show ?thesis
  proof (cases ?d)
    case Nil
    with d show ?thesis by simp
  next
    case (Cons c r)
    then have "IsPathSeparator c" using hd_dropWhile [of "\<lambda>c. \<not> IsPathSeparator c" "rev path"] by auto
    with d Cons show ?thesis by (simp add: IsPathSeparator_def)
  qed
qed

lemma Split_unique:
  assumes "CHR ''/'' \<notin> set n" and "d = [] \<or> last d = CHR ''/''"
  shows "Split (d @ n) = (d, n)"
proof -
  have "takeWhile (\<lambda>c. \<not> IsPathSeparator c) (rev n @ rev d) = rev n"
  proof (cases "d = []")
    case True
    with assms(1) show ?thesis by (auto simp: IsPathSeparator_def takeWhile_eq_all_conv)
  next
    case False
    with assms(2) have "hd (rev d) = CHR ''/''" by (simp add: hd_rev)
    with False obtain r where "rev d = CHR ''/'' # r" by (cases "rev d") auto
    moreover from assms(1) have "\<And>y. y \<in> set (rev n) \<Longrightarrow> \<not> IsPathSeparator y"
      by (auto simp: IsPathSeparator_def)
    moreover have "\<not> \<not> IsPathSeparator (CHR ''/'')" by (simp add: IsPathSeparator_def)
    ultimately show ?thesis
      by (simp add: takeWhile_tail)
  qed
  then show ?thesis by (simp add: Split_def Let_def)
qed

lemma HasPrefix_append: "HasPrefix (a @ b) a"
  by (simp add: HasPrefix_def)

lemma HasPrefix_iff: "HasPrefix s pre = (\<exists>r. s = pre @ r)"
  by (auto simp: HasPrefix_def) (metis append_take_drop_id)

section \<open>The operating system: what each call leaves\<close>

lemma filter_fst_neq_id: "map_of es n = None \<Longrightarrow> filter (\<lambda>e. fst e \<noteq> n) es = es"
  by (induction es) (auto split: if_splits)

lemma map_of_filter_self: "map_of (filter (\<lambda>e. fst e \<noteq> n) es) n = None"
  by (induction es) auto

lemma map_of_filter_other: "x \<noteq> n \<Longrightarrow> map_of (filter (\<lambda>e. fst e \<noteq> n) es) x = map_of es x"
  by (induction es) auto

lemma os_Remove_snd: "snd (os_Remove n s) = s\<lparr>entries := filter (\<lambda>e. fst e \<noteq> n) (entries s)\<rparr>"
  by (simp add: os_Remove_def filter_fst_neq_id split: option.splits)

lemma holds_entries: "entries s' = entries s \<Longrightarrow> holds s' p = holds s p"
  by (simp add: holds_def)

lemma is_directory_entries: "entries s' = entries s \<Longrightarrow> is_directory s' p = is_directory s p"
  by (simp add: is_directory_def holds_def)

lemma holds_filter: "holds (s\<lparr>entries := filter P (entries s)\<rparr>) p \<Longrightarrow> holds s p"
  unfolding holds_def list_ex_iff by force

lemma holds_Cons:
  "holds (s\<lparr>entries := (k, n) # entries s\<rparr>) p = (HasPrefix k (p @ ''/'') \<or> holds s p)"
  by (simp add: holds_def)

lemma is_directory_filter:
  "is_directory (s\<lparr>entries := filter P (entries s)\<rparr>) p \<Longrightarrow> is_directory s p"
  by (auto simp: is_directory_def dest: holds_filter)

lemma is_directory_empty: "is_directory s []"
  by (simp add: is_directory_def Split_def)

lemma os_Symlink_snd:
  assumes "l \<noteq> []" "t \<noteq> []" "map_of (entries s) l = None" "\<not> is_directory s l"
  shows "snd (os_Symlink t l s) = s\<lparr>entries := (l, Symlink t) # entries s\<rparr>"
  using assms by (simp add: os_Symlink_def)

lemma os_Symlink_entries:
  "entries (snd (os_Symlink t l s)) = entries s
   \<or> (map_of (entries s) l = None \<and> entries (snd (os_Symlink t l s)) = (l, Symlink t) # entries s)"
  by (simp add: os_Symlink_def)

lemma fold_max_ge: "x \<in> set xs \<Longrightarrow> x \<le> fold max xs (a::nat)"
proof (induction xs arbitrary: a)
  case Nil then show ?case by simp
next
  case (Cons y ys)
  have mono: "\<And>b. b \<le> fold max ys b"
  proof -
    fix b :: nat show "b \<le> fold max ys b" 
      by (induction ys arbitrary: b) (auto intro: order_trans[OF max.cobounded2])
  qed
  from Cons show ?case
    by (auto intro: order_trans[OF max.cobounded1 mono])
qed

lemma inodes_of_mem: "map_of es p = Some (Regular i) \<Longrightarrow> i \<in> set (inodes_of es)"
  by (induction es rule: inodes_of.induct) (auto split: if_splits)

lemma fresh_inode_descriptor: "map_of (descriptors s) d = Some i \<Longrightarrow> i \<noteq> fresh_inode s"
proof -
  assume "map_of (descriptors s) d = Some i"
  then have "(d, i) \<in> set (descriptors s)" by (rule map_of_SomeD)
  then have "i \<in> set (map snd (descriptors s) @ inodes_of (entries s))" by force
  then have "i \<le> fold max (map snd (descriptors s) @ inodes_of (entries s)) 0"
    by (rule fold_max_ge)
  then show ?thesis by (simp add: fresh_inode_def)
qed

lemma fresh_inode_entry: "map_of (entries s) p = Some (Regular i) \<Longrightarrow> i \<noteq> fresh_inode s"
proof -
  assume "map_of (entries s) p = Some (Regular i)"
  then have "i \<in> set (map snd (descriptors s) @ inodes_of (entries s))" 
    by (simp add: inodes_of_mem)
  then have "i \<le> fold max (map snd (descriptors s) @ inodes_of (entries s)) 0"
    by (rule fold_max_ge)
  then show ?thesis by (simp add: fresh_inode_def)
qed

text \<open>Following links ends at a path that no link holds; a path that no link holds is where it ends.\<close>

lemma follow_plain:
  "(\<And>t. map_of es p \<noteq> Some (Symlink t)) \<Longrightarrow> follow (Suc n) es p = Inr p"
  by (cases "map_of es p"; simp split: node.splits)

lemma follow_end: "follow n es p = Inr q \<Longrightarrow> map_of es q \<noteq> Some (Symlink t)"
  by (induction n es p rule: follow.induct) (auto split: option.splits node.splits)

text \<open>What a failed and what a successful OpenFile leaves.\<close>

lemma os_OpenFile_Inl:
  "os_OpenFile name flag perm s = (Inl e, s2) \<Longrightarrow> s2 = s"
  by (auto simp: os_OpenFile_def split: if_splits option.splits node.splits sum.splits)

lemma os_OpenFile_Inr:
  assumes "os_OpenFile name flag perm s = (Inr f, s2)"
  shows "Name f = name" and "fd f = next_fd s"
    and "goroutines s2 = goroutines s"
    and "\<exists>i. descriptors s2 = (fd f, i) # descriptors s"
    and "\<And>d i. map_of (descriptors s) d = Some i \<Longrightarrow> data s2 i = data s i"
    and "\<And>p i. map_of (entries s) p = Some (Regular i) \<Longrightarrow> data s2 i = data s i"
    and "ticks s2 = ticks s" and "clock s2 = clock s" and "space s2 = space s"
    and "\<And>x n. map_of (entries s) x = Some n \<Longrightarrow> map_of (entries s2) x = Some n"
    and "\<And>x t. map_of (entries s2) x = Some (Symlink t) \<Longrightarrow> map_of (entries s) x = Some (Symlink t)"
  using assms fresh_inode_descriptor[of s] fresh_inode_entry[of s]
  by (auto simp: os_OpenFile_def split: if_splits option.splits node.splits sum.splits)

lemma os_OpenFile_creates:
  assumes "os_OpenFile name flag perm s = (Inr f, s2)" and "map_of (entries s) name = None"
  shows "\<exists>i. map_of (entries s2) name = Some (Regular i) \<and> mode s2 i = perm \<and> data s2 i = []
           \<and> map_of (descriptors s2) (fd f) = Some i"
proof -
  have "follow 41 (entries s) name = Inr name"
    using follow_plain [of "entries s" name 40] assms(2) by simp
  with assms show ?thesis
    by (auto simp: os_OpenFile_def split: if_splits)
qed

lemma os_OpenFile_available:
  assumes "available s name" and "flag AND O_CREATE \<noteq> 0"
  shows "os_OpenFile name flag perm s = (Inr \<lparr>fd = next_fd s, Name = name\<rparr>, opened name perm s)"
proof -
  from assms(1) have nl: "\<And>t. map_of (entries s) name \<noteq> Some (Symlink t)"
    and nd: "name \<notin> set (denied s)" and dir: "\<not> is_directory s name"
    by (auto simp: available_def split: option.splits node.splits)
  from dir have ne: "name \<noteq> []" using is_directory_empty by auto
  have "follow 41 (entries s) name = Inr name"
    using follow_plain [of "entries s" name 40] nl by simp
  with nl nd dir ne assms(2) show ?thesis
    by (auto simp: os_OpenFile_def opened_def split: option.splits node.splits)
qed

lemma create_flag: "(O_APPEND OR O_CREATE OR O_WRONLY) AND O_CREATE \<noteq> 0"
  by (simp add: O_APPEND_def O_CREATE_def O_WRONLY_def)

lemma available_ticks [simp]: "available (s\<lparr>ticks := k\<rparr>) name = available s name"
  by (simp add: available_def is_directory_def holds_def)

lemma opened_frame:
  "goroutines (opened n p s) = goroutines s" "ticks (opened n p s) = ticks s"
  "clock (opened n p s) = clock s" "space (opened n p s) = space s"
  "denied (opened n p s) = denied s"
  by (auto simp: opened_def available_def split: option.splits node.splits)

section \<open>fileinfo, create and rotate\<close>

lemma Format_stamp_nonempty: "Format_stamp t \<noteq> []"
  by (simp add: Format_stamp_def stamp_def)

lemma fileinfo_eq:
  "fileinfo g w t =
     (take (length (Filename w) - length (Ext (Filename w))) (Filename w)
        @ Format_stamp (if LocalTime w then t else UTC t)
        @ host_pid_segment g w
        @ Ext (Filename w),
      O_APPEND OR O_CREATE OR O_WRONLY,
      if FileMode w = 0 then 420 else FileMode w)"
  by (simp add: fileinfo_def host_pid_segment_def Let_def)

lemma fileinfo_name_differs: "fst (fileinfo g w t) \<noteq> Filename w"
proof
  let ?pre = "take (length (Filename w) - length (Ext (Filename w))) (Filename w)"
  let ?mid = "Format_stamp (if LocalTime w then t else UTC t) @ host_pid_segment g w"
  assume "fst (fileinfo g w t) = Filename w"
  then have "?pre @ ?mid @ Ext (Filename w) = ?pre @ Ext (Filename w)"
    by (simp add: fileinfo_eq prefix_Ext)
  then have "length (?mid @ Ext (Filename w)) = length (Ext (Filename w))"
    by simp
  then have "?mid = []" by simp
  then show False by (simp add: Format_stamp_nonempty)
qed

lemma next_name_differs: "next_name g w s \<noteq> Filename w"
  by (simp add: next_name_def fileinfo_name_differs)

text \<open>
  The new name does not lie below the base path: after the prefix a timestamp goes on
  with a dot where a path below the base path has a separator.
\<close>

lemma utoa_digits: "set (utoa n) \<subseteq> set ''0123456789''"
proof (induction n rule: utoa.induct)
  case (1 n)
  have d: "''0123456789'' ! k \<in> set ''0123456789''" if "k < 10" for k
    using that by (intro nth_mem) simp
  show ?case
  proof (cases "n < 10")
    case True
    with d [of n] show ?thesis by (subst utoa.simps) simp
  next
    case False
    with 1 d [of "n mod 10"] show ?thesis by (subst utoa.simps) simp
  qed
qed

lemma appendInt_digits: "set (appendInt x k) \<subseteq> set ''0123456789''"
  using utoa_digits [of x] by (auto simp: appendInt_def)

lemma stamp_shape:
  "\<exists>b. stamp d = CHR ''.'' # b \<and> CHR ''.'' \<notin> set b \<and> CHR ''/'' \<notin> set b"
proof -
  have "CHR ''.'' \<notin> set (appendInt x k) \<and> CHR ''/'' \<notin> set (appendInt x k)" for x k
    using appendInt_digits [of x k] by auto
  then show ?thesis by (simp add: stamp_def)
qed

lemma segment_shape: "host_pid_segment g w = [] \<or> (\<exists>x. host_pid_segment g w = CHR ''.'' # x)"
  by (simp add: host_pid_segment_def)

lemma not_below_base: "\<not> HasPrefix (fst (fileinfo g w t)) (Filename w @ ''/'')"
proof
  let ?F = "Filename w" and ?e = "Ext (Filename w)"
  let ?P = "take (length ?F - length ?e) ?F"
  let ?S = "Format_stamp (if LocalTime w then t else UTC t)" and ?G = "host_pid_segment g w"
  assume "HasPrefix (fst (fileinfo g w t)) (?F @ ''/'')"
  then obtain r where "?P @ ?S @ ?G @ ?e = (?F @ ''/'') @ r"
    by (auto simp: HasPrefix_iff fileinfo_eq)
  then have "?P @ ?S @ ?G @ ?e = ?P @ ?e @ ''/'' @ r"
    by (simp add: prefix_Ext flip: append_assoc)
  then have eq: "?S @ ?G @ ?e = ?e @ ''/'' @ r" by simp
  obtain b where S: "?S = CHR ''.'' # b" and b: "CHR ''.'' \<notin> set b" "CHR ''/'' \<notin> set b"
    using stamp_shape by (auto simp: Format_stamp_def)
  show False
  proof (cases "?e = []")
    case True
    with eq S show False by simp
  next
    case False
    with Ext_shape [of ?F] obtain a where e: "?e = CHR ''.'' # a"
      and a: "CHR ''.'' \<notin> set a" "CHR ''/'' \<notin> set a" by auto
    from e segment_shape [of g w] obtain x where x: "?G @ ?e = CHR ''.'' # x" by auto
    let ?Q = "\<lambda>c. c \<noteq> CHR ''.'' \<and> c \<noteq> CHR ''/''"
    from eq S e x have "b @ CHR ''.'' # x = a @ CHR ''/'' # r" by simp
    then have "dropWhile ?Q (b @ CHR ''.'' # x) = dropWhile ?Q (a @ CHR ''/'' # r)" by simp
    moreover from b have "dropWhile ?Q (b @ CHR ''.'' # x) = CHR ''.'' # x"
      by (subst dropWhile_append2) auto
    moreover from a have "dropWhile ?Q (a @ CHR ''/'' # r) = CHR ''/'' # r"
      by (subst dropWhile_append2) auto
    ultimately show False by simp
  qed
qed

lemma Base_nonempty: "Base path \<noteq> []"
  by (simp add: Base_def Let_def)

lemma is_directory_opened:
  "is_directory (opened name perm s) p \<Longrightarrow> is_directory s p \<or> HasPrefix name (p @ ''/'')"
  by (auto simp: opened_def is_directory_def holds_def split: option.splits node.splits)

lemma opened_entries:
  "map_of (entries s) x = Some n \<Longrightarrow> available s name \<Longrightarrow> map_of (entries (opened name perm s)) x = Some n"
  by (auto simp: opened_def available_def split: option.splits node.splits)

lemma opened_descriptor:
  "available s name \<Longrightarrow>
   descriptors (opened name perm s) = (next_fd s, opened_inode name s) # descriptors s"
  by (auto simp: opened_def opened_inode_def available_def split: option.splits node.splits)

lemma opened_inode_entry:
  "available s name \<Longrightarrow> map_of (entries (opened name perm s)) name = Some (Regular (opened_inode name s))"
  by (auto simp: opened_def opened_inode_def available_def split: option.splits node.splits)

lemma opened_new:
  "map_of (entries s) name = None \<Longrightarrow>
   opened_inode name s = fresh_inode s \<and> data (opened name perm s) (fresh_inode s) = []
   \<and> mode (opened name perm s) (fresh_inode s) = perm"
  by (simp add: opened_def opened_inode_def)

text \<open>The two ways in which \<open>rotate\<close> and \<open>create\<close> end.\<close>

lemma rotate_eq:
  "rotate g w s =
     (case os_OpenFile (next_name g w s) (O_APPEND OR O_CREATE OR O_WRONLY) (perm_of w)
             (s\<lparr>ticks := Suc (ticks s)\<rparr>) of
        (Inl err, s2) \<Rightarrow> (Some err, w\<lparr>file := None\<rparr>, s2)
      | (Inr f, s2) \<Rightarrow>
          (None, w\<lparr>file := Some f, size_w := 0\<rparr>,
           s2\<lparr>goroutines := goroutines s2 @
              [\<lparr>oldfile = file w, newname = Name f, filename = Filename w,
                backups = MaxBackups w, processID = ProcessID w\<rparr>]\<rparr>))"
  by (simp add: rotate_def timeNow_def fileinfo_eq next_name_def perm_of_def Let_def
        split: prod.splits sum.splits)

lemma rotate_cases:
  obtains (fail) e where "rotate g w s = (Some e, w\<lparr>file := None\<rparr>, s\<lparr>ticks := Suc (ticks s)\<rparr>)"
  | (ok) f s2 where
      "os_OpenFile (next_name g w s) (O_APPEND OR O_CREATE OR O_WRONLY) (perm_of w)
          (s\<lparr>ticks := Suc (ticks s)\<rparr>) = (Inr f, s2)"
      "rotate g w s = (None, w\<lparr>file := Some f, size_w := 0\<rparr>,
          s2\<lparr>goroutines := goroutines s2 @
            [\<lparr>oldfile = file w, newname = Name f, filename = Filename w,
              backups = MaxBackups w, processID = ProcessID w\<rparr>]\<rparr>)"
proof (cases "os_OpenFile (next_name g w s) (O_APPEND OR O_CREATE OR O_WRONLY) (perm_of w)
          (s\<lparr>ticks := Suc (ticks s)\<rparr>)")
  case (Pair r s2)
  show ?thesis
  proof (cases r)
    case (Inl e)
    with Pair have "s2 = s\<lparr>ticks := Suc (ticks s)\<rparr>" by (simp add: os_OpenFile_Inl)
    with Pair Inl have "rotate g w s = (Some e, w\<lparr>file := None\<rparr>, s\<lparr>ticks := Suc (ticks s)\<rparr>)"
      by (simp add: rotate_eq)
    then show ?thesis by (rule fail)
  next
    case (Inr f)
    with Pair show ?thesis
      by (intro ok [of f s2]) (simp_all add: rotate_eq)
  qed
qed

lemma rotate_available:
  assumes "available s (next_name g w s)"
  shows "rotate g w s = (None, reopened g w s, rotated g w s)"
proof -
  from assms have "available (s\<lparr>ticks := Suc (ticks s)\<rparr>) (next_name g w s)" by simp
  from os_OpenFile_available [OF this create_flag, of "perm_of w"]
  show ?thesis
    by (simp add: rotate_eq reopened_def rotated_def started_def opened_frame)
qed

lemma create_eq:
  "create g w s =
     (case os_OpenFile (next_name g w s) (O_APPEND OR O_CREATE OR O_WRONLY) (perm_of w)
             (s\<lparr>ticks := Suc (ticks s)\<rparr>) of
        (Inl err, s2) \<Rightarrow> (Some err, w\<lparr>file := None\<rparr>, s2)
      | (Inr f, s2) \<Rightarrow>
          (None, w\<lparr>file := Some f, size_w := 0\<rparr>,
           if \<not> ProcessID w
           then snd (os_Symlink (Base (Name f)) (Filename w) (snd (os_Remove (Filename w) s2)))
           else snd (os_Remove (Filename w) s2)))"
  by (simp add: create_def timeNow_def fileinfo_eq next_name_def perm_of_def Let_def
        split: prod.splits sum.splits)

lemma create_cases:
  obtains (fail) e where "create g w s = (Some e, w\<lparr>file := None\<rparr>, s\<lparr>ticks := Suc (ticks s)\<rparr>)"
  | (ok) s' where "create g w s = (None, reopened g w s, s')"
proof (cases "os_OpenFile (next_name g w s) (O_APPEND OR O_CREATE OR O_WRONLY) (perm_of w)
          (s\<lparr>ticks := Suc (ticks s)\<rparr>)")
  case (Pair r s2)
  show ?thesis
  proof (cases r)
    case (Inl e)
    with Pair have "s2 = s\<lparr>ticks := Suc (ticks s)\<rparr>" by (simp add: os_OpenFile_Inl)
    with Pair Inl have "create g w s = (Some e, w\<lparr>file := None\<rparr>, s\<lparr>ticks := Suc (ticks s)\<rparr>)"
      by (simp add: create_eq)
    then show ?thesis by (rule fail)
  next
    case (Inr f)
    from os_OpenFile_Inr(1,2) [OF Pair [unfolded Inr]]
    have f: "f = \<lparr>fd = next_fd s, Name = next_name g w s\<rparr>" by simp
    from Pair Inr f have "\<exists>s'. create g w s = (None, reopened g w s, s')"
      by (simp add: create_eq reopened_def)
    then show ?thesis using ok by blast
  qed
qed

lemma create_available:
  assumes "available s (next_name g w s)" and "\<not> is_directory s (Filename w)"
  shows "create g w s = (None, reopened g w s, created g w s)"
proof -
  let ?n = "next_name g w s" and ?s1 = "s\<lparr>ticks := Suc (ticks s)\<rparr>"
  let ?s2 = "opened ?n (perm_of w) ?s1"
  let ?s3 = "?s2\<lparr>entries := filter (\<lambda>e. fst e \<noteq> Filename w) (entries ?s2)\<rparr>"
  from assms(1) have "available ?s1 ?n" by simp
  from os_OpenFile_available [OF this create_flag, of "perm_of w"]
  have o: "os_OpenFile ?n (O_APPEND OR O_CREATE OR O_WRONLY) (perm_of w) ?s1
      = (Inr \<lparr>fd = next_fd s, Name = ?n\<rparr>, ?s2)" by simp
  from assms(2) have ne: "Filename w \<noteq> []" using is_directory_empty by auto
  have "\<not> is_directory ?s1 (Filename w)"
    using assms(2) by (simp add: is_directory_def holds_def)
  with is_directory_opened [of ?n "perm_of w" ?s1 "Filename w"] not_below_base [of g w]
  have "\<not> is_directory ?s2 (Filename w)" by (auto simp: next_name_def)
  with is_directory_filter [where s = ?s2 and P = "\<lambda>e. fst e \<noteq> Filename w" and p = "Filename w"]
  have d3: "\<not> is_directory ?s3 (Filename w)" by auto
  have m3: "map_of (entries ?s3) (Filename w) = None" by (simp add: map_of_filter_self)
  have link: "snd (os_Symlink (Base ?n) (Filename w) ?s3)
      = ?s3\<lparr>entries := (Filename w, Symlink (Base ?n)) # entries ?s3\<rparr>"
    using ne Base_nonempty m3 d3 by (rule os_Symlink_snd)
  show ?thesis
    using o link
    by (simp add: create_eq Let_def os_Remove_snd reopened_def created_def base_link_def)
qed

section \<open>Write\<close>

lemma sint_of_nat_small: "k < 2 ^ 63 \<Longrightarrow> sint (word_of_nat k :: 64 word) = int k"
proof -
  assume k: "k < 2 ^ 63"
  then have "int k < 2 ^ 63" by (metis of_nat_less_iff of_nat_numeral of_nat_power)
  then show ?thesis
    by (simp add: signed_of_nat signed_take_bit_int_eq_self)
qed

lemma sint_add_of_nat:
  assumes "0 \<le> sint (a :: 64 word)" "sint a + int k < 2 ^ 63"
  shows "sint (a + word_of_nat k) = sint a + int k"
proof -
  from assms have "int k < 2 ^ 63" by linarith
  then have k: "sint (word_of_nat k :: 64 word) = int k"
    by (simp add: signed_of_nat signed_take_bit_int_eq_self)
  from assms show ?thesis
    by (simp add: sint_word_add k signed_take_bit_int_eq_self)
qed

lemma File_Write_open:
  "map_of (descriptors s) (fd f) = Some i \<Longrightarrow> length p \<le> space s \<Longrightarrow>
   File_Write (Some f) p s = ((length p, None), wrote i p s)"
  by (simp add: File_Write_def wrote_def)

lemma File_Write_short:
  "map_of (descriptors s) (fd f) = Some i \<Longrightarrow> space s < length p \<Longrightarrow>
   File_Write (Some f) p s
     = ((space s, Some ENOSPC), s\<lparr>data := (data s)(i := data s i @ take (space s) p), space := 0\<rparr>)"
  by (simp add: File_Write_def)

lemma write_tail_open:
  assumes "file w = Some f" and "map_of (descriptors s) (fd f) = Some i" and "length p \<le> space s"
  shows "write_tail g w p s =
     (if 0 <s MaxSize w \<and> MaxSize w <s size_w w + word_of_nat (length p) \<and> Filename w \<noteq> []
      then (case rotate g (w\<lparr>size_w := size_w w + word_of_nat (length p)\<rparr>) (wrote i p s) of
              (err, w', s') \<Rightarrow> ((length p, err), w', s'))
      else ((length p, None), w\<lparr>size_w := size_w w + word_of_nat (length p)\<rparr>, wrote i p s))"
  using assms by (simp add: write_tail_def File_Write_open Let_def split: prod.splits)

lemma write_tail_short:
  assumes "file w = Some f" and "map_of (descriptors s) (fd f) = Some i" and "space s < length p"
  shows "write_tail g w p s =
     ((space s, Some ENOSPC), w,
      s\<lparr>data := (data s)(i := data s i @ take (space s) p), space := 0\<rparr>)"
  using assms by (simp add: write_tail_def File_Write_short)

lemma Write_open: "file w = Some f \<Longrightarrow> Write g w p s = write_tail g w p s"
  by (simp add: Write_def ensure_open_def)

lemma ensure_open_closed:
  assumes "file w = None" and "EnsureDir w \<longrightarrow> Dir (Filename w) \<notin> set (denied s)"
    and "available s (next_name g w s)" and "\<not> is_directory s (Filename w)"
  shows "ensure_open g w s = (None, reopened g w s, created g w s)"
  using assms by (simp add: ensure_open_def os_MkdirAll_def create_available)

lemma Write_closed:
  assumes "file w = None" and "EnsureDir w \<longrightarrow> Dir (Filename w) \<notin> set (denied s)"
    and "available s (next_name g w s)" and "\<not> is_directory s (Filename w)"
  shows "Write g w p s = Write g (reopened g w s) p (created g w s)"
proof -
  from assms(4) have ne: "Filename w \<noteq> []" using is_directory_empty by auto
  have "Write g w p s = write_tail g (reopened g w s) p (created g w s)"
    using assms(1) ne by (simp add: Write_def ensure_open_closed [OF assms])
  moreover have "file (reopened g w s) = Some \<lparr>fd = next_fd s, Name = next_name g w s\<rparr>"
    by (simp add: reopened_def)
  ultimately show ?thesis by (simp add: Write_open)
qed

lemma created_frame:
  assumes "available s (next_name g w s)"
  shows "descriptors (created g w s)
           = (next_fd s, opened_inode (next_name g w s) s) # descriptors s"
    and "space (created g w s) = space s" and "goroutines (created g w s) = goroutines s"
    and "ticks (created g w s) = Suc (ticks s)" and "clock (created g w s) = clock s"
    and "denied (created g w s) = denied s"
    and "map_of (entries (created g w s)) (Filename w) = base_link g w s"
    and "map_of (entries (created g w s)) (next_name g w s)
           = Some (Regular (opened_inode (next_name g w s) s))"
proof -
  let ?s1 = "s\<lparr>ticks := Suc (ticks s)\<rparr>"
  from assms have a: "available ?s1 (next_name g w s)" by simp
  have oi: "opened_inode (next_name g w s) ?s1 = opened_inode (next_name g w s) s"
    by (simp add: opened_inode_def fresh_inode_def split: option.splits node.splits)
  from opened_descriptor [OF a, of "perm_of w"] oi
  show "descriptors (created g w s)
           = (next_fd s, opened_inode (next_name g w s) s) # descriptors s"
    by (simp add: created_def Let_def)
  show "space (created g w s) = space s" and "goroutines (created g w s) = goroutines s"
    and "ticks (created g w s) = Suc (ticks s)" and "clock (created g w s) = clock s"
    and "denied (created g w s) = denied s"
    by (simp_all add: created_def Let_def opened_frame)
  show "map_of (entries (created g w s)) (Filename w) = base_link g w s"
    by (simp add: created_def Let_def base_link_def map_of_filter_self)
  from opened_inode_entry [OF a, of "perm_of w"] oi next_name_differs [of g w s]
  show "map_of (entries (created g w s)) (next_name g w s)
           = Some (Regular (opened_inode (next_name g w s) s))"
    by (simp add: created_def Let_def base_link_def map_of_filter_other)
qed

lemma wrote_wrote: "wrote i q (wrote i p s) = wrote i (p @ q) s"
  by (simp add: wrote_def)

lemma wrote_frame:
  "descriptors (wrote i p s) = descriptors s" "space (wrote i p s) = space s - length p"
  "entries (wrote i p s) = entries s" "goroutines (wrote i p s) = goroutines s"
  "data (wrote i p s) i = data s i @ p" "denied (wrote i p s) = denied s"
  "ticks (wrote i p s) = ticks s" "clock (wrote i p s) = clock s"
  by (simp_all add: wrote_def)

text \<open>Writes that stay within the limit: no rotation, the sizes add up.\<close>

lemma WriteAll_append:
  "WriteAll g w (qs @ ps) s =
     (let (rs1, w1, s1) = WriteAll g w qs s;
          (rs2, w2, s2) = WriteAll g w1 ps s1
      in (rs1 @ rs2, w2, s2))"
  by (induction qs arbitrary: w s) (simp_all add: split_beta Let_def)

lemma WriteAll_below:
  assumes "file w = Some f" and "map_of (descriptors s) (fd f) = Some i"
    and "sum_list (map length qs) \<le> space s"
    and "0 \<le> sint (size_w w)"
    and "sint (size_w w) + int (sum_list (map length qs)) \<le> sint (MaxSize w)"
  shows "WriteAll g w qs s =
     (map (\<lambda>q. (length q, None)) qs,
      w\<lparr>size_w := size_w w + word_of_nat (sum_list (map length qs))\<rparr>,
      wrote i (concat qs) s)"
  using assms
proof (induction qs arbitrary: w s)
  case Nil
  then show ?case by (simp add: wrote_def)
next
  case (Cons q qs)
  let ?w1 = "w\<lparr>size_w := size_w w + word_of_nat (length q)\<rparr>"
  have M: "sint (MaxSize w) < 2 ^ 63" using sint_lt [of "MaxSize w"] by simp
  from Cons.prems(4,5) M have small: "sint (size_w w) + int (length q) < 2 ^ 63" by simp
  have add: "sint (size_w w + word_of_nat (length q)) = sint (size_w w) + int (length q)"
    using Cons.prems(4) small by (rule sint_add_of_nat)
  from Cons.prems(5) add have norot: "\<not> MaxSize w <s size_w w + word_of_nat (length q)"
    by (simp add: word_sless_alt)
  from Cons.prems(3) have sp: "length q \<le> space s" by simp
  have W: "Write g w q s = ((length q, None), ?w1, wrote i q s)"
    using norot by (simp add: Write_open [OF Cons.prems(1)]
        write_tail_open [OF Cons.prems(1,2) sp])
  have "WriteAll g ?w1 qs (wrote i q s) =
     (map (\<lambda>q. (length q, None)) qs,
      ?w1\<lparr>size_w := size_w ?w1 + word_of_nat (sum_list (map length qs))\<rparr>,
      wrote i (concat qs) (wrote i q s))"
  proof (rule Cons.IH)
    show "file ?w1 = Some f" using Cons.prems(1) by simp
    show "map_of (descriptors (wrote i q s)) (fd f) = Some i"
      using Cons.prems(2) by (simp add: wrote_frame)
    show "sum_list (map length qs) \<le> space (wrote i q s)"
      using Cons.prems(3) by (simp add: wrote_frame)
    show "0 \<le> sint (size_w ?w1)" using add Cons.prems(4) by simp
    show "sint (size_w ?w1) + int (sum_list (map length qs)) \<le> sint (MaxSize ?w1)"
      using add Cons.prems(5) by simp
  qed
  with W show ?case by (simp add: wrote_wrote add.assoc)
qed

section \<open>The example run\<close>

lemma app_fileinfo:
  assumes "Filename w = ''app.log''" "\<not> LocalTime w" "\<not> HostName w" "\<not> ProcessID w" "FileMode w = 0"
  shows "fileinfo g w (clock_by_second k) = (''app.2016-11-04T18-30-'' @ appendInt k 2 @ ''.log'', 1089, 420)"
  using assms
  by (simp add: fileinfo_def Format_stamp_def stamp_def appendInt_def utoa.simps UTC_def Ext_def 
      IsPathSeparator_def O_APPEND_def O_CREATE_def O_WRONLY_def clock_by_second_def nov4_def Let_def)

lemma app_next_name:
  assumes "Filename w = ''app.log''" "\<not> LocalTime w" "\<not> HostName w" "\<not> ProcessID w" "FileMode w = 0"
    and "clock s = clock_by_second"
  shows "next_name g w s = ''app.2016-11-04T18-30-'' @ appendInt (ticks s) 2 @ ''.log''"
  using app_fileinfo [OF assms(1-5)] assms(6) by (simp add: next_name_def)

lemma app_names:
  "next_name g app_log empty_world = backup0"
  "next_name g app_log1 world1 = backup1"
  "next_name g (app_log1\<lparr>size_w := x\<rparr>) (wrote i p world1) = backup1"
  "next_name g (app_log1\<lparr>file := None\<rparr>) (world1\<lparr>denied := [backup1], ticks := 2\<rparr>) = backup2"
  by (simp_all add: app_next_name app_log_def app_log1_def empty_world_def world1_def wrote_def
        backup0_def backup1_def backup2_def appendInt_def utoa.simps)

lemmas world_eval = available_def is_directory_def holds_def Split_def HasPrefix_def
  IsPathSeparator_def opened_def opened_inode_def fresh_inode_def wrote_def
  empty_world_def world1_def backup0_def backup1_def backup2_def

lemma app_available:
  "available empty_world backup0" "available world1 backup1"
  "available (wrote 1 p world1) backup1"
  "available (world1\<lparr>denied := [backup1], ticks := 2\<rparr>) backup2"
  "\<not> is_directory empty_world ''app.log''" "\<not> is_directory world1 ''app.log''"
  "\<not> is_directory (world1\<lparr>denied := [backup1], ticks := 2\<rparr>) ''app.log''"
  by (simp_all add: world_eval)

lemma app_created:
  "reopened g app_log empty_world = app_log1\<lparr>size_w := 0\<rparr>"
  "created g app_log empty_world
     = world1\<lparr>data := (\<lambda>i. [])(1 := []), space := 1000\<rparr>"
proof -
  show "reopened g app_log empty_world = app_log1\<lparr>size_w := 0\<rparr>"
    unfolding reopened_def app_names by (simp add: app_log1_def empty_world_def)
  have b: "base_link g app_log empty_world = Some (Symlink backup0)"
    unfolding base_link_def app_names by (simp add: app_log_def Base_def backup0_def IsPathSeparator_def)
  have p: "perm_of app_log = 420" by (simp add: perm_of_def app_log_def)
  show "created g app_log empty_world
     = world1\<lparr>data := (\<lambda>i. [])(1 := []), space := 1000\<rparr>"
    unfolding created_def app_names b p
    by (simp add: world_eval app_log_def Let_def)
qed

lemma app_first_write:
  "Write g app_log (replicate 60 7) empty_world = ((60, None), app_log1, world1)"
proof -
  let ?p = "replicate 60 (7 :: byte)"
  have a: "available empty_world (next_name g app_log empty_world)"
    and d: "\<not> is_directory empty_world (Filename app_log)"
    and c: "file app_log = None" "EnsureDir app_log \<longrightarrow> Dir (Filename app_log) \<notin> set (denied empty_world)"
    unfolding app_names by (simp_all add: app_available) (simp_all add: app_log_def app_available)
  have "Write g app_log ?p empty_world
      = Write g (reopened g app_log empty_world) ?p (created g app_log empty_world)"
    using c a d by (rule Write_closed)
  also have "\<dots> = write_tail g (app_log1\<lparr>size_w := 0\<rparr>) ?p
      (world1\<lparr>data := (\<lambda>i. [])(1 := []), space := 1000\<rparr>)"
    by (simp add: app_created Write_open [where f = "\<lparr>fd = 3, Name = backup0\<rparr>"] app_log1_def)
  also have "\<dots> = ((60, None), app_log1, world1)"
    by (subst write_tail_open [where f = "\<lparr>fd = 3, Name = backup0\<rparr>" and i = 1])
       (simp_all add: app_log1_def app_log_def world1_def empty_world_def wrote_def word_sless_alt)
  finally show ?thesis .
qed

lemma app_rotated:
  "reopened g (app_log1\<lparr>size_w := x\<rparr>) (wrote 1 p world1) = app_log2"
  "rotated g (app_log1\<lparr>size_w := x\<rparr>) (wrote 1 p world1)
     = world2\<lparr>data := (\<lambda>i. [])(1 := replicate 60 7 @ p, 2 := []), space := 940 - length p\<rparr>"
proof -
  show "reopened g (app_log1\<lparr>size_w := x\<rparr>) (wrote 1 p world1) = app_log2"
    unfolding reopened_def app_names
    by (simp add: app_log1_def app_log2_def world1_def empty_world_def wrote_def)
  have s: "started g (app_log1\<lparr>size_w := x\<rparr>) (wrote 1 p world1) = rotation1"
    unfolding started_def app_names by (simp add: app_log1_def app_log_def rotation1_def)
  have q: "perm_of (app_log1\<lparr>size_w := x\<rparr>) = 420"
    by (simp add: perm_of_def app_log1_def app_log_def)
  show "rotated g (app_log1\<lparr>size_w := x\<rparr>) (wrote 1 p world1)
     = world2\<lparr>data := (\<lambda>i. [])(1 := replicate 60 7 @ p, 2 := []), space := 940 - length p\<rparr>"
    unfolding rotated_def app_names s q
    by (simp add: world_eval world2_def numeral_2_eq_2)
qed

lemma app_second_write:
  "Write g app_log1 (replicate 60 7) world1 = ((60, None), app_log2, world2)"
proof -
  let ?p = "replicate 60 (7 :: byte)"
  have f: "file app_log1 = Some \<lparr>fd = 3, Name = backup0\<rparr>"
    and d: "map_of (descriptors world1) (fd \<lparr>fd = 3, Name = backup0\<rparr>) = Some 1"
    and l: "length ?p \<le> space world1"
    and c: "0 <s MaxSize app_log1 \<and> MaxSize app_log1 <s size_w app_log1 + word_of_nat (length ?p)
        \<and> Filename app_log1 \<noteq> []"
    by (simp_all add: app_log1_def app_log_def world1_def empty_world_def word_sless_alt)
  have a: "available (wrote 1 ?p world1)
      (next_name g (app_log1\<lparr>size_w := size_w app_log1 + word_of_nat (length ?p)\<rparr>) (wrote 1 ?p world1))"
    unfolding app_names by (rule app_available)
  have "Write g app_log1 ?p world1 = ((60, None), app_log2,
      world2\<lparr>data := (\<lambda>i. [])(1 := replicate 60 7 @ ?p, 2 := []), space := 940 - length ?p\<rparr>)"
    unfolding Write_open [OF f] write_tail_open [OF f d l] rotate_available [OF a] app_rotated
    using c by simp
  also have "world2\<lparr>data := (\<lambda>i. [])(1 := replicate 60 7 @ ?p, 2 := []), space := 940 - length ?p\<rparr>
      = world2"
    by (simp add: world2_def replicate_add [symmetric])
  finally show ?thesis .
qed

lemma app_write_all:
  "WriteAll g app_log [replicate 60 7, replicate 60 7] empty_world
     = ([(60, None), (60, None)], app_log2, world2)"
  by (simp add: app_first_write app_second_write)

lemma app_rotate:
  "rotate g app_log1 world1
     = (None, app_log2, world2\<lparr>data := (\<lambda>i. [])(1 := replicate 60 7, 2 := []), space := 940\<rparr>)"
proof -
  have a: "available world1 (next_name g app_log1 world1)"
    unfolding app_names by (rule app_available)
  from app_rotated [of g "size_w app_log1" "[]"] show ?thesis
    unfolding rotate_available [OF a] by (simp add: wrote_def)
qed

section \<open>Size accounting and rotation\<close>

text \<open>
  C1. For a writer with a file name and a positive \<open>MaxSize\<close>.

  A \<open>Write\<close> on an open writer (its descriptor open, enough space left for the payload)
  appends the whole payload to the file of its handle and returns the payload's length,
  whatever that length is; it adds the length to the counter; it calls \<open>rotate\<close>, once,
  exactly when the new counter exceeds \<open>MaxSize\<close> as a signed 64-bit number, and then
  returns what \<open>rotate\<close> returns as its error.

  A \<open>rotate\<close> whose new name is available returns no error and leaves the writer on the
  new file with a counter of 0, and one goroutine more.

  A \<open>Write\<close> on a closed writer whose new name is available first opens the new file,
  with a counter of 0, and goes on as the \<open>Write\<close> of that open writer.

  Hence for a sequence of writes on an open writer whose cumulative size (from a
  non-negative counter, within the range of \<open>int64\<close>) exceeds \<open>MaxSize\<close> first at its
  last write: the writes before the last return their lengths and no error and rotate
  nothing, and the last write returns its length and makes the one call of \<open>rotate\<close>.
\<close>

theorem Write_counts_and_rotates:
  assumes "Filename w \<noteq> []" and "0 <s MaxSize w"
  shows
    "(\<forall>f i p s. file w = Some f \<and> map_of (descriptors s) (fd f) = Some i \<and> length p \<le> space s \<longrightarrow>
        Write g w p s =
          (if MaxSize w <s size_w w + word_of_nat (length p)
           then (case rotate g (w\<lparr>size_w := size_w w + word_of_nat (length p)\<rparr>) (wrote i p s) of
                   (err, w', s') \<Rightarrow> ((length p, err), w', s'))
           else ((length p, None), w\<lparr>size_w := size_w w + word_of_nat (length p)\<rparr>, wrote i p s)))
     \<and> (\<forall>w1 s. available s (next_name g w1 s) \<longrightarrow>
            rotate g w1 s = (None, reopened g w1 s, rotated g w1 s)
          \<and> size_w (reopened g w1 s) = 0
          \<and> goroutines (rotated g w1 s) = goroutines s @ [started g w1 s])
     \<and> (\<forall>p s. file w = None \<and> (EnsureDir w \<longrightarrow> Dir (Filename w) \<notin> set (denied s))
            \<and> available s (next_name g w s) \<and> \<not> is_directory s (Filename w) \<longrightarrow>
            Write g w p s = Write g (reopened g w s) p (created g w s)
          \<and> file (reopened g w s) = Some \<lparr>fd = next_fd s, Name = next_name g w s\<rparr>
          \<and> map_of (descriptors (created g w s)) (next_fd s)
                = Some (opened_inode (next_name g w s) s)
          \<and> size_w (reopened g w s) = 0 \<and> space (created g w s) = space s)
     \<and> (\<forall>f i qs p s. file w = Some f \<and> map_of (descriptors s) (fd f) = Some i
            \<and> sum_list (map length (qs @ [p])) \<le> space s
            \<and> 0 \<le> sint (size_w w)
            \<and> sint (size_w w) + int (sum_list (map length qs)) \<le> sint (MaxSize w)
            \<and> sint (MaxSize w) < sint (size_w w) + int (sum_list (map length (qs @ [p])))
            \<and> sint (size_w w) + int (sum_list (map length (qs @ [p]))) < 2 ^ 63 \<longrightarrow>
            WriteAll g w qs s =
              (map (\<lambda>q. (length q, None)) qs,
               w\<lparr>size_w := size_w w + word_of_nat (sum_list (map length qs))\<rparr>,
               wrote i (concat qs) s)
          \<and> WriteAll g w (qs @ [p]) s =
              (case rotate g (w\<lparr>size_w := size_w w + word_of_nat (sum_list (map length (qs @ [p])))\<rparr>)
                      (wrote i (concat (qs @ [p])) s) of
                 (err, w', s') \<Rightarrow> (map (\<lambda>q. (length q, None)) qs @ [(length p, err)], w', s')))"
proof (intro conjI allI impI)
  fix f i and s :: world and p :: "byte list"
  assume H: "file w = Some f \<and> map_of (descriptors s) (fd f) = Some i \<and> length p \<le> space s"
  then have f: "file w = Some f" and d: "map_of (descriptors s) (fd f) = Some i"
    and l: "length p \<le> space s" by simp_all
  show "Write g w p s =
          (if MaxSize w <s size_w w + word_of_nat (length p)
           then (case rotate g (w\<lparr>size_w := size_w w + word_of_nat (length p)\<rparr>) (wrote i p s) of
                   (err, w', s') \<Rightarrow> ((length p, err), w', s'))
           else ((length p, None), w\<lparr>size_w := size_w w + word_of_nat (length p)\<rparr>, wrote i p s))"
    using assms by (simp add: Write_open [OF f] write_tail_open [OF f d l])
next
  fix w1 and s :: world
  assume "available s (next_name g w1 s)"
  then show "rotate g w1 s = (None, reopened g w1 s, rotated g w1 s)"
    by (rule rotate_available)
  show "size_w (reopened g w1 s) = 0" by (simp add: reopened_def)
  show "goroutines (rotated g w1 s) = goroutines s @ [started g w1 s]"
    by (simp add: rotated_def)
next
  fix s :: world and p :: "byte list"
  assume H: "file w = None \<and> (EnsureDir w \<longrightarrow> Dir (Filename w) \<notin> set (denied s))
            \<and> available s (next_name g w s) \<and> \<not> is_directory s (Filename w)"
  then show "Write g w p s = Write g (reopened g w s) p (created g w s)"
    by (intro Write_closed) simp_all
  show "file (reopened g w s) = Some \<lparr>fd = next_fd s, Name = next_name g w s\<rparr>"
    and "size_w (reopened g w s) = 0"
    by (simp_all add: reopened_def)
  from H have a: "available s (next_name g w s)" by simp
  from created_frame(1,2) [OF a]
  show "map_of (descriptors (created g w s)) (next_fd s) = Some (opened_inode (next_name g w s) s)"
    and "space (created g w s) = space s"
    by simp_all
next
  fix f i and s :: world and qs :: "byte list list" and p :: "byte list"
  assume H: "file w = Some f \<and> map_of (descriptors s) (fd f) = Some i
            \<and> sum_list (map length (qs @ [p])) \<le> space s
            \<and> 0 \<le> sint (size_w w)
            \<and> sint (size_w w) + int (sum_list (map length qs)) \<le> sint (MaxSize w)
            \<and> sint (MaxSize w) < sint (size_w w) + int (sum_list (map length (qs @ [p])))
            \<and> sint (size_w w) + int (sum_list (map length (qs @ [p]))) < 2 ^ 63"
  then have f: "file w = Some f" and d: "map_of (descriptors s) (fd f) = Some i"
    and sp: "sum_list (map length qs) \<le> space s"
      "length p \<le> space s - sum_list (map length qs)"
    and nn: "0 \<le> sint (size_w w)"
    and below: "sint (size_w w) + int (sum_list (map length qs)) \<le> sint (MaxSize w)"
    and over: "sint (MaxSize w) < sint (size_w w) + int (sum_list (map length qs)) + int (length p)"
    and small: "sint (size_w w) + int (sum_list (map length qs)) + int (length p) < 2 ^ 63"
    by auto
  let ?w1 = "w\<lparr>size_w := size_w w + word_of_nat (sum_list (map length qs))\<rparr>"
  let ?s1 = "wrote i (concat qs) s"
  show A: "WriteAll g w qs s = (map (\<lambda>q. (length q, None)) qs, ?w1, ?s1)"
    using f d sp(1) nn below by (rule WriteAll_below)
  have c1: "sint (size_w ?w1) = sint (size_w w) + int (sum_list (map length qs))"
    using nn small by (simp add: sint_add_of_nat)
  have add: "sint (size_w ?w1 + word_of_nat (length p)) = sint (size_w ?w1) + int (length p)"
    using nn small c1 by (intro sint_add_of_nat) simp_all
  from over add c1 have rot: "MaxSize ?w1 <s size_w ?w1 + word_of_nat (length p)"
    by (simp add: word_sless_alt)
  have f1: "file ?w1 = Some f" using f by simp
  have d1: "map_of (descriptors ?s1) (fd f) = Some i" using d by (simp add: wrote_frame)
  have l1: "length p \<le> space ?s1" using sp(2) by (simp add: wrote_frame length_concat)
  have W: "Write g ?w1 p ?s1 =
      (case rotate g (?w1\<lparr>size_w := size_w ?w1 + word_of_nat (length p)\<rparr>) (wrote i p ?s1) of
         (err, w', s') \<Rightarrow> ((length p, err), w', s'))"
    using assms rot by (simp add: Write_open [OF f1] write_tail_open [OF f1 d1 l1])
  show "WriteAll g w (qs @ [p]) s =
      (case rotate g (w\<lparr>size_w := size_w w + word_of_nat (sum_list (map length (qs @ [p])))\<rparr>)
              (wrote i (concat (qs @ [p])) s) of
         (err, w', s') \<Rightarrow> (map (\<lambda>q. (length q, None)) qs @ [(length p, err)], w', s'))"
    by (simp add: WriteAll_append A W wrote_wrote add.assoc split: prod.splits)
qed

theorem Write_counts_and_rotates_witness:
  "Write this_process app_log1 (replicate 120 7) world1
     = ((120, None), app_log2,
        world2\<lparr>data := (\<lambda>i. [])(1 := replicate 60 7 @ replicate 120 7, 2 := []), space := 820\<rparr>)
   \<and> WriteAll this_process app_log1 [replicate 30 7] world1
     = ([(30, None)], app_log1\<lparr>size_w := 90\<rparr>, wrote 1 (replicate 30 7) world1)
   \<and> WriteAll this_process app_log1 ([replicate 30 7] @ [replicate 60 7]) world1
     = ([(30, None), (60, None)], app_log2,
        world2\<lparr>data := (\<lambda>i. [])(1 := replicate 60 7 @ replicate 30 7 @ replicate 60 7, 2 := []),
          space := 850\<rparr>)
   \<and> Write this_process app_log (replicate 60 7) empty_world
     = Write this_process (app_log1\<lparr>size_w := 0\<rparr>) (replicate 60 7)
         (world1\<lparr>data := (\<lambda>i. [])(1 := []), space := 1000\<rparr>)"
proof -
  let ?g = this_process and ?f = "\<lparr>fd = 3, Name = backup0\<rparr>"
  let ?big = "replicate 120 (7 :: byte)" and ?q = "replicate 30 (7 :: byte)"
  let ?p = "replicate 60 (7 :: byte)"
  have w1: "Filename app_log1 \<noteq> []" "0 <s MaxSize app_log1"
    and w0: "Filename app_log \<noteq> []" "0 <s MaxSize app_log"
    by (simp_all add: app_log1_def app_log_def word_sless_alt)
  note T = Write_counts_and_rotates [OF w1, of ?g]
  have open1: "file app_log1 = Some ?f" "map_of (descriptors world1) (fd ?f) = Some 1"
    by (simp_all add: app_log1_def world1_def empty_world_def)
  have size1: "size_w app_log1 = 60" "MaxSize app_log1 = 100" "space world1 = 940"
    by (simp_all add: app_log1_def app_log_def world1_def empty_world_def)
  have rot: "rotate ?g (app_log1\<lparr>size_w := x\<rparr>) (wrote 1 b world1)
      = (None, app_log2,
         world2\<lparr>data := (\<lambda>i. [])(1 := replicate 60 7 @ b, 2 := []), space := 940 - length b\<rparr>)"
    for x b
  proof -
    have "available (wrote 1 b world1) (next_name ?g (app_log1\<lparr>size_w := x\<rparr>) (wrote 1 b world1))"
      unfolding app_names by (rule app_available)
    from T [THEN conjunct2, THEN conjunct1, rule_format, OF this, THEN conjunct1]
    show ?thesis by (simp only: app_rotated)
  qed
  have 1: "Write ?g app_log1 ?big world1
     = ((120, None), app_log2,
        world2\<lparr>data := (\<lambda>i. [])(1 := replicate 60 7 @ ?big, 2 := []), space := 820\<rparr>)"
  proof -
    have h: "file app_log1 = Some ?f \<and> map_of (descriptors world1) (fd ?f) = Some 1
        \<and> length ?big \<le> space world1"
      using open1 size1 by simp
    have c: "MaxSize app_log1 <s size_w app_log1 + word_of_nat (length ?big)"
      by (simp add: size1 word_sless_alt)
    from T [THEN conjunct1, rule_format, OF h] c show ?thesis
      by (simp add: rot [unfolded One_nat_def])
  qed
  have h4: "file app_log1 = Some ?f \<and> map_of (descriptors world1) (fd ?f) = Some 1
      \<and> sum_list (map length ([?q] @ [?p])) \<le> space world1
      \<and> 0 \<le> sint (size_w app_log1)
      \<and> sint (size_w app_log1) + int (sum_list (map length [?q])) \<le> sint (MaxSize app_log1)
      \<and> sint (MaxSize app_log1) < sint (size_w app_log1) + int (sum_list (map length ([?q] @ [?p])))
      \<and> sint (size_w app_log1) + int (sum_list (map length ([?q] @ [?p]))) < 2 ^ 63"
    using open1 by (simp add: size1)
  note S = T [THEN conjunct2, THEN conjunct2, THEN conjunct2, rule_format, OF h4]
  from S [THEN conjunct1]
  have 2: "WriteAll ?g app_log1 [?q] world1 = ([(30, None)], app_log1\<lparr>size_w := 90\<rparr>, wrote 1 ?q world1)"
    by (simp add: size1)
  from S [THEN conjunct2]
  have 3: "WriteAll ?g app_log1 ([?q] @ [?p]) world1
     = ([(30, None), (60, None)], app_log2,
        world2\<lparr>data := (\<lambda>i. [])(1 := replicate 60 7 @ ?q @ ?p, 2 := []), space := 850\<rparr>)"
    by (simp add: rot [unfolded One_nat_def])
  have h0: "file app_log = None \<and> (EnsureDir app_log \<longrightarrow> Dir (Filename app_log) \<notin> set (denied empty_world))
      \<and> available empty_world (next_name ?g app_log empty_world)
      \<and> \<not> is_directory empty_world (Filename app_log)"
    unfolding app_names by (simp add: app_available) (simp add: app_log_def app_available)
  from Write_counts_and_rotates [OF w0, of ?g, THEN conjunct2, THEN conjunct2, THEN conjunct1,
      rule_format, OF h0, THEN conjunct1, of ?p]
  have 4: "Write ?g app_log ?p empty_world
     = Write ?g (app_log1\<lparr>size_w := 0\<rparr>) ?p (world1\<lparr>data := (\<lambda>i. [])(1 := []), space := 1000\<rparr>)"
    by (simp add: app_created)
  from 1 2 3 4 show ?thesis by simp
qed

section \<open>The first write of a closed writer\<close>

lemma File_Write_entries: "entries (snd (File_Write fo p s)) = entries s"
  by (simp add: File_Write_def split: option.splits)

lemma rotate_entries:
  "map_of (entries s) x = Some n \<Longrightarrow> map_of (entries (snd (snd (rotate g w s)))) x = Some n"
  "map_of (entries (snd (snd (rotate g w s)))) x = Some (Symlink t)
     \<Longrightarrow> map_of (entries s) x = Some (Symlink t)"
proof -
  show "map_of (entries s) x = Some n \<Longrightarrow> map_of (entries (snd (snd (rotate g w s)))) x = Some n"
  proof (cases rule: rotate_cases [of g w s])
    case (fail e)
    assume "map_of (entries s) x = Some n"
    with fail show ?thesis by simp
  next
    case (ok f s2)
    assume "map_of (entries s) x = Some n"
    with os_OpenFile_Inr(10) [OF ok(1), of x n] ok(2) show ?thesis by simp
  qed
  show "map_of (entries (snd (snd (rotate g w s)))) x = Some (Symlink t)
     \<Longrightarrow> map_of (entries s) x = Some (Symlink t)"
  proof (cases rule: rotate_cases [of g w s])
    case (fail e)
    assume "map_of (entries (snd (snd (rotate g w s)))) x = Some (Symlink t)"
    with fail show ?thesis by simp
  next
    case (ok f s2)
    assume "map_of (entries (snd (snd (rotate g w s)))) x = Some (Symlink t)"
    with os_OpenFile_Inr(11) [OF ok(1), of x t] ok(2) show ?thesis by simp
  qed
qed

lemma write_tail_entries:
  "map_of (entries s) x = Some n \<Longrightarrow> map_of (entries (snd (snd (write_tail g w p s)))) x = Some n"
  "map_of (entries (snd (snd (write_tail g w p s)))) x = Some (Symlink t)
     \<Longrightarrow> map_of (entries s) x = Some (Symlink t)"
proof -
  obtain n1 e1 s1 where fw: "File_Write (file w) p s = ((n1, e1), s1)" by (metis surj_pair)
  with File_Write_entries [of "file w" p s] have e: "entries s1 = entries s" by simp
  let ?w1 = "w\<lparr>size_w := size_w w + word_of_nat n1\<rparr>"
  have s': "snd (snd (write_tail g w p s)) = s1
      \<or> snd (snd (write_tail g w p s)) = snd (snd (rotate g ?w1 s1))"
    using fw by (auto simp: write_tail_def Let_def split_beta)
  show "map_of (entries s) x = Some n \<Longrightarrow> map_of (entries (snd (snd (write_tail g w p s)))) x = Some n"
    using s' e rotate_entries(1) [where s = s1 and x = x and n = n and g = g and w = ?w1]
    by auto
  show "map_of (entries (snd (snd (write_tail g w p s)))) x = Some (Symlink t)
     \<Longrightarrow> map_of (entries s) x = Some (Symlink t)"
    using s' e rotate_entries(2) [where s = s1 and x = x and t = t and g = g and w = ?w1]
    by auto
qed

lemma rotate_data:
  "map_of (descriptors s) d = Some i \<Longrightarrow> data (snd (snd (rotate g w s))) i = data s i"
proof (cases rule: rotate_cases [of g w s])
  case (fail e)
  then show ?thesis by simp
next
  case (ok f s2)
  assume "map_of (descriptors s) d = Some i"
  then have "map_of (descriptors (s\<lparr>ticks := Suc (ticks s)\<rparr>)) d = Some i" by simp
  from os_OpenFile_Inr(5) [OF ok(1) this] ok(2) show ?thesis by simp
qed

lemma write_tail_data:
  assumes "file w = Some f" and "map_of (descriptors s) (fd f) = Some i" and "length p \<le> space s"
  shows "fst (fst (write_tail g w p s)) = length p"
    and "data (snd (snd (write_tail g w p s))) i = data s i @ p"
proof -
  have d: "map_of (descriptors (wrote i p s)) (fd f) = Some i"
    using assms(2) by (simp add: wrote_frame)
  note r = rotate_data [OF d, of g "w\<lparr>size_w := size_w w + word_of_nat (length p)\<rparr>"]
  show "fst (fst (write_tail g w p s)) = length p"
    by (simp add: write_tail_open [OF assms] split_beta)
  show "data (snd (snd (write_tail g w p s))) i = data s i @ p"
    using r by (simp add: write_tail_open [OF assms] split_beta wrote_frame)
qed

lemma write_tail_file:
  assumes "write_tail g w p s = (r, w', s')" and "file w' = Some f'"
  shows "file w = Some f' \<or> Name f' \<noteq> Filename w"
proof -
  obtain n1 e1 s1 where fw: "File_Write (file w) p s = ((n1, e1), s1)" by (metis surj_pair)
  let ?w1 = "w\<lparr>size_w := size_w w + word_of_nat n1\<rparr>"
  show ?thesis
  proof (cases "e1 = None \<and> 0 <s MaxSize ?w1 \<and> MaxSize ?w1 <s size_w ?w1 \<and> Filename ?w1 \<noteq> []")
    case False
    with assms fw have "file w' = file w"
      by (auto simp: write_tail_def Let_def split: if_splits)
    with assms(2) show ?thesis by simp
  next
    case True
    with assms(1) fw have r: "w' = fst (snd (rotate g ?w1 s1))"
      by (simp add: write_tail_def Let_def split_beta)
    show ?thesis
    proof (cases rule: rotate_cases [of g ?w1 s1])
      case (fail e)
      with r assms(2) show ?thesis by simp
    next
      case (ok f s2)
      from os_OpenFile_Inr(1) [OF ok(1)] next_name_differs [of g ?w1 s1]
      have "Name f \<noteq> Filename w" by simp
      with r ok(2) assms(2) show ?thesis by simp
    qed
  qed
qed

lemma ensure_open_file:
  assumes "file w = None" and "ensure_open g w s = (e, w0, s0)"
  shows "file w0 = None \<and> e \<noteq> None \<or> e = None \<and> w0 = reopened g w s"
proof (cases "EnsureDir w \<and> Dir (Filename w) \<in> set (denied s)")
  case True
  with assms show ?thesis by (auto simp: ensure_open_def os_MkdirAll_def)
next
  case False
  with assms have c: "create g w s = (e, w0, s0)"
    by (auto simp: ensure_open_def os_MkdirAll_def split: if_splits)
  show ?thesis
    using c by (cases rule: create_cases [of g w s]) auto
qed

text \<open>
  C10. For a closed writer with a file name.

  The name \<open>create\<close> opens is not \<open>Filename\<close>, and whatever the first \<open>Write\<close> returns, a
  handle it leaves in the writer has a name other than \<open>Filename\<close>.

  When the directory can be made, the new name is available and the base path names no
  directory, the first \<open>Write\<close> runs \<open>create\<close> before it writes: \<open>create\<close> returns no
  error, the writer holds the file named by \<open>fileinfo\<close> at the current time under the
  next descriptor, that name is an entry of the world for the file of the descriptor (new
  and empty, with the permission of \<open>fileinfo\<close>, when the name was free), and whatever
  file or link was at the base path is gone: the base path holds the link to the base name
  of the new file, or nothing with \<open>ProcessID\<close>. The payload is then written by the rest of
  \<open>Write\<close>. Whatever that returns, without \<open>ProcessID\<close> the base path still holds that link
  afterwards, and with \<open>ProcessID\<close> it holds no link. When the space suffices, the call
  returns the payload's length and the payload is the end of the new file's contents; when
  it does not, the call returns the number of bytes that fitted with \<open>ENOSPC\<close>, and the
  base path has been replaced all the same.
\<close>

theorem first_Write_opens_timestamped_file:
  assumes "file w = None" and "Filename w \<noteq> []"
  shows "next_name g w s \<noteq> Filename w
    \<and> (\<forall>r w' s' f. Write g w p s = (r, w', s') \<and> file w' = Some f \<longrightarrow> Name f \<noteq> Filename w)
    \<and> ((EnsureDir w \<longrightarrow> Dir (Filename w) \<notin> set (denied s))
         \<and> available s (next_name g w s) \<and> \<not> is_directory s (Filename w) \<longrightarrow>
          create g w s = (None, reopened g w s, created g w s)
        \<and> Write g w p s = write_tail g (reopened g w s) p (created g w s)
        \<and> file (reopened g w s) = Some \<lparr>fd = next_fd s, Name = next_name g w s\<rparr>
        \<and> map_of (descriptors (created g w s)) (next_fd s)
             = Some (opened_inode (next_name g w s) s)
        \<and> map_of (entries (created g w s)) (next_name g w s)
             = Some (Regular (opened_inode (next_name g w s) s))
        \<and> (map_of (entries s) (next_name g w s) = None \<longrightarrow>
              data (created g w s) (opened_inode (next_name g w s) s) = []
            \<and> mode (created g w s) (opened_inode (next_name g w s) s) = perm_of w)
        \<and> map_of (entries (created g w s)) (Filename w) = base_link g w s
        \<and> (\<not> ProcessID w \<longrightarrow>
              map_of (entries (snd (snd (Write g w p s)))) (Filename w)
                = Some (Symlink (Base (next_name g w s))))
        \<and> (ProcessID w \<longrightarrow>
              (\<forall>t. map_of (entries (snd (snd (Write g w p s)))) (Filename w) \<noteq> Some (Symlink t)))
        \<and> (length p \<le> space s \<longrightarrow>
              fst (fst (Write g w p s)) = length p
            \<and> data (snd (snd (Write g w p s))) (opened_inode (next_name g w s) s)
                = data (created g w s) (opened_inode (next_name g w s) s) @ p)
        \<and> (space s < length p \<longrightarrow>
              Write g w p s =
                ((space s, Some ENOSPC), reopened g w s,
                 (created g w s)
                   \<lparr>data := (data (created g w s))
                      (opened_inode (next_name g w s) s :=
                         data (created g w s) (opened_inode (next_name g w s) s) @ take (space s) p),
                    space := 0\<rparr>)))"
proof (intro conjI allI impI)
  show "next_name g w s \<noteq> Filename w" by (rule next_name_differs)
next
  fix r w' s' f
  assume H: "Write g w p s = (r, w', s') \<and> file w' = Some f"
  obtain e0 w0 s0 where eo: "ensure_open g w s = (e0, w0, s0)" by (metis surj_pair)
  from ensure_open_file [OF assms(1) eo]
  show "Name f \<noteq> Filename w"
  proof
    assume "file w0 = None \<and> e0 \<noteq> None"
    with H eo assms show ?thesis by (auto simp: Write_def)
  next
    assume e: "e0 = None \<and> w0 = reopened g w s"
    with H eo assms have wt: "write_tail g w0 p s0 = (r, w', s')" by (simp add: Write_def)
    from write_tail_file [OF wt] H have "file w0 = Some f \<or> Name f \<noteq> Filename w0" by simp
    with e next_name_differs [of g w s] show ?thesis by (auto simp: reopened_def)
  qed
next
  assume H: "(EnsureDir w \<longrightarrow> Dir (Filename w) \<notin> set (denied s))
         \<and> available s (next_name g w s) \<and> \<not> is_directory s (Filename w)"
  then have mk: "EnsureDir w \<longrightarrow> Dir (Filename w) \<notin> set (denied s)"
    and a: "available s (next_name g w s)" and nd: "\<not> is_directory s (Filename w)"
    by simp_all
  let ?n = "next_name g w s" and ?i = "opened_inode (next_name g w s) s"
  let ?w0 = "reopened g w s" and ?s0 = "created g w s"
  note fr = created_frame [OF a]
  show c: "create g w s = (None, ?w0, ?s0)" using a nd by (rule create_available)
  show W: "Write g w p s = write_tail g ?w0 p ?s0"
    using assms by (simp add: Write_def ensure_open_closed [OF assms(1) mk a nd])
  show f: "file ?w0 = Some \<lparr>fd = next_fd s, Name = ?n\<rparr>" by (simp add: reopened_def)
  show d: "map_of (descriptors ?s0) (next_fd s) = Some ?i" by (simp add: fr)
  show "map_of (entries ?s0) ?n = Some (Regular ?i)" by (rule fr)
  show b: "map_of (entries ?s0) (Filename w) = base_link g w s" by (rule fr)
  {
    assume free: "map_of (entries s) ?n = None"
    then have "map_of (entries (s\<lparr>ticks := Suc (ticks s)\<rparr>)) ?n = None" by simp
    from opened_new [OF this, of "perm_of w"] free
    have i: "?i = fresh_inode s"
      and n: "data (opened ?n (perm_of w) (s\<lparr>ticks := Suc (ticks s)\<rparr>)) (fresh_inode s) = []"
        "mode (opened ?n (perm_of w) (s\<lparr>ticks := Suc (ticks s)\<rparr>)) (fresh_inode s) = perm_of w"
      by (simp_all add: opened_inode_def fresh_inode_def)
    from i n show "data ?s0 ?i = []" and "mode ?s0 ?i = perm_of w"
      by (simp_all add: created_def Let_def)
  }
  {
    assume "\<not> ProcessID w"
    with b have "map_of (entries ?s0) (Filename w) = Some (Symlink (Base ?n))"
      by (simp add: base_link_def)
    from write_tail_entries(1) [OF this, of g ?w0 p]
    show "map_of (entries (snd (snd (Write g w p s)))) (Filename w) = Some (Symlink (Base ?n))"
      by (simp add: W)
  }
  {
    fix t
    assume "ProcessID w"
    with b have n: "map_of (entries ?s0) (Filename w) = None" by (simp add: base_link_def)
    show "map_of (entries (snd (snd (Write g w p s)))) (Filename w) \<noteq> Some (Symlink t)"
    proof
      assume "map_of (entries (snd (snd (Write g w p s)))) (Filename w) = Some (Symlink t)"
      then have "map_of (entries (snd (snd (write_tail g ?w0 p ?s0)))) (Filename w) = Some (Symlink t)"
        by (simp add: W)
      from write_tail_entries(2) [OF this] n show False by simp
    qed
  }
  have d': "map_of (descriptors ?s0) (fd \<lparr>fd = next_fd s, Name = ?n\<rparr>) = Some ?i"
    using d by simp
  {
    assume "length p \<le> space s"
    then have l: "length p \<le> space ?s0" by (simp add: fr)
    from write_tail_data [OF f d' l, of g]
    show "fst (fst (Write g w p s)) = length p"
      and "data (snd (snd (Write g w p s))) ?i = data ?s0 ?i @ p"
      by (simp_all add: W)
  }
  {
    assume "space s < length p"
    then have l: "space ?s0 < length p" by (simp add: fr)
    from write_tail_short [OF f d' l, of g]
    show "Write g w p s =
        ((space s, Some ENOSPC), ?w0,
         ?s0\<lparr>data := (data ?s0)(?i := data ?s0 ?i @ take (space s) p), space := 0\<rparr>)"
      by (simp add: W fr)
  }
qed

lemma full_created:
  "next_name g app_log full_world = backup0"
  "available full_world backup0" "\<not> is_directory full_world ''app.log''"
  "reopened g app_log full_world = app_log1\<lparr>size_w := 0\<rparr>"
  "opened_inode backup0 full_world = 6"
  "created g app_log full_world
     = full_world\<lparr>entries := [(''app.log'', Symlink backup0), (backup0, Regular 6)],
         data := (\<lambda>i. [])(6 := []), mode := (\<lambda>i. 0)(6 := 420), descriptors := [(3, 6)],
         next_fd := 4, ticks := 1\<rparr>"
proof -
  show n: "next_name g app_log full_world = backup0"
    by (simp add: app_next_name app_log_def full_world_def empty_world_def backup0_def
          appendInt_def utoa.simps)
  show "available full_world backup0" "\<not> is_directory full_world ''app.log''"
    and "opened_inode backup0 full_world = 6"
    by (simp_all add: world_eval full_world_def)
  show "reopened g app_log full_world = app_log1\<lparr>size_w := 0\<rparr>"
    unfolding reopened_def n by (simp add: app_log1_def full_world_def empty_world_def)
  have b: "base_link g app_log full_world = Some (Symlink backup0)"
    unfolding base_link_def n by (simp add: app_log_def Base_def backup0_def IsPathSeparator_def)
  have p: "perm_of app_log = 420" by (simp add: perm_of_def app_log_def)
  show "created g app_log full_world
     = full_world\<lparr>entries := [(''app.log'', Symlink backup0), (backup0, Regular 6)],
         data := (\<lambda>i. [])(6 := []), mode := (\<lambda>i. 0)(6 := 420), descriptors := [(3, 6)],
         next_fd := 4, ticks := 1\<rparr>"
    unfolding created_def n b p
    by (simp add: world_eval full_world_def app_log_def Let_def)
qed

theorem first_Write_opens_timestamped_file_witness:
  "next_name this_process app_log empty_world \<noteq> Filename app_log
   \<and> create this_process app_log empty_world
       = (None, app_log1\<lparr>size_w := 0\<rparr>, world1\<lparr>data := (\<lambda>i. [])(1 := []), space := 1000\<rparr>)
   \<and> map_of (entries (snd (snd (Write this_process app_log (replicate 60 7) empty_world))))
         ''app.log'' = Some (Symlink backup0)
   \<and> fst (fst (Write this_process app_log (replicate 60 7) empty_world)) = 60
   \<and> data (snd (snd (Write this_process app_log (replicate 60 7) empty_world))) 1
       = replicate 60 7
   \<and> map_of (entries full_world) ''app.log'' = Some (Regular 5)
   \<and> Write this_process app_log (replicate 60 7) full_world
       = ((10, Some ENOSPC), app_log1\<lparr>size_w := 0\<rparr>,
          full_world\<lparr>entries := [(''app.log'', Symlink backup0), (backup0, Regular 6)],
            data := (\<lambda>i. [])(6 := replicate 10 7), mode := (\<lambda>i. 0)(6 := 420),
            descriptors := [(3, 6)], next_fd := 4, ticks := 1, space := 0\<rparr>)"
proof -
  let ?g = this_process and ?p = "replicate 60 (7 :: byte)"
  have a: "file app_log = None" and b: "Filename app_log \<noteq> []" and c: "\<not> ProcessID app_log"
    and fn: "Filename app_log = ''app.log''"
    by (simp_all add: app_log_def)
  have h0: "(EnsureDir app_log \<longrightarrow> Dir (Filename app_log) \<notin> set (denied empty_world))
      \<and> available empty_world (next_name ?g app_log empty_world)
      \<and> \<not> is_directory empty_world (Filename app_log)"
    unfolding app_names by (simp add: app_available) (simp add: app_log_def app_available)
  have h1: "(EnsureDir app_log \<longrightarrow> Dir (Filename app_log) \<notin> set (denied full_world))
      \<and> available full_world (next_name ?g app_log full_world)
      \<and> \<not> is_directory full_world (Filename app_log)"
    unfolding full_created by (simp add: full_created) (simp add: app_log_def full_created)
  note T0 = first_Write_opens_timestamped_file [OF a b, of ?g empty_world ?p]
  note T1 = first_Write_opens_timestamped_file [OF a b, of ?g full_world ?p]
  note U0 = T0 [THEN conjunct2, THEN conjunct2, rule_format, OF h0]
  note U1 = T1 [THEN conjunct2, THEN conjunct2, rule_format, OF h1]
  have i0: "opened_inode backup0 empty_world = 1" by (simp add: world_eval)
  have sp: "length ?p \<le> space empty_world" "space full_world < length ?p"
      "space full_world = 10"
    by (simp_all add: empty_world_def full_world_def)
  from T0 [THEN conjunct1] have 1: "next_name ?g app_log empty_world \<noteq> Filename app_log" .
  from U0 have 2: "create ?g app_log empty_world
       = (None, app_log1\<lparr>size_w := 0\<rparr>, world1\<lparr>data := (\<lambda>i. [])(1 := []), space := 1000\<rparr>)"
    by (simp add: app_created)
  from U0 c have "map_of (entries (snd (snd (Write ?g app_log ?p empty_world)))) (Filename app_log)
      = Some (Symlink (Base (next_name ?g app_log empty_world)))"
    by blast
  then have 3: "map_of (entries (snd (snd (Write ?g app_log ?p empty_world)))) ''app.log''
      = Some (Symlink backup0)"
    by (simp add: app_names fn Base_def backup0_def IsPathSeparator_def)
  from U0 sp(1) have "fst (fst (Write ?g app_log ?p empty_world)) = length ?p
      \<and> data (snd (snd (Write ?g app_log ?p empty_world)))
            (opened_inode (next_name ?g app_log empty_world) empty_world)
          = data (created ?g app_log empty_world)
              (opened_inode (next_name ?g app_log empty_world) empty_world) @ ?p"
    by blast
  then have 4: "fst (fst (Write ?g app_log ?p empty_world)) = 60"
    and 5: "data (snd (snd (Write ?g app_log ?p empty_world))) 1 = ?p"
    by (simp_all add: app_names i0 app_created)
  have 6: "map_of (entries full_world) ''app.log'' = Some (Regular 5)"
    by (simp add: full_world_def)
  from U1 sp(2) have "Write ?g app_log ?p full_world =
      ((space full_world, Some ENOSPC), reopened ?g app_log full_world,
       (created ?g app_log full_world)
         \<lparr>data := (data (created ?g app_log full_world))
            (opened_inode (next_name ?g app_log full_world) full_world :=
               data (created ?g app_log full_world)
                 (opened_inode (next_name ?g app_log full_world) full_world)
               @ take (space full_world) ?p),
          space := 0\<rparr>)"
    by blast
  then have 7: "Write ?g app_log ?p full_world
       = ((10, Some ENOSPC), app_log1\<lparr>size_w := 0\<rparr>,
          full_world\<lparr>entries := [(''app.log'', Symlink backup0), (backup0, Regular 6)],
            data := (\<lambda>i. [])(6 := replicate 10 7), mode := (\<lambda>i. 0)(6 := 420),
            descriptors := [(3, 6)], next_fd := 4, ticks := 1, space := 0\<rparr>)"
    by (simp add: full_created sp(3))
  from 1 2 3 4 5 6 7 show ?thesis by blast
qed

section \<open>A rotation whose open fails\<close>

text \<open>
  C2. The claim: when the new file cannot be opened, the rotation returns the error and the
  writer keeps its previous handle and its counter, so that the next write goes to the old
  handle. The code stores the nil result of \<open>OpenFile\<close> in \<open>w.file\<close> before it looks
  at the error: a failed \<open>Rotate\<close> returns the error, keeps the counter and every other
  field, and leaves the writer without a handle. The old descriptor is not closed, and no
  goroutine is started that would close it. The witness runs the example: after the failed
  rotation descriptor 3 is still open on inode 1, and the next write opens a third file
  and writes there, not to inode 1.
\<close>

theorem rotate_failure_drops_handle:
  assumes "fst (Rotate g w s) = Some e"
  shows "Rotate g w s = (Some e, w\<lparr>file := None\<rparr>, s\<lparr>ticks := Suc (ticks s)\<rparr>)"
  using assms by (cases rule: rotate_cases [of g w s]) (simp_all add: Rotate_def)

theorem rotate_failure_drops_handle_witness:
  "Rotate this_process app_log1 (world1\<lparr>denied := [backup1]\<rparr>)
     = (Some EACCES, app_log1\<lparr>file := None\<rparr>, world1\<lparr>denied := [backup1], ticks := 2\<rparr>)
   \<and> file app_log1 = Some \<lparr>fd = 3, Name = backup0\<rparr>
   \<and> map_of (descriptors (world1\<lparr>denied := [backup1], ticks := 2\<rparr>)) 3 = Some 1
   \<and> (case Write this_process (app_log1\<lparr>file := None\<rparr>) [1, 2, 3]
              (world1\<lparr>denied := [backup1], ticks := 2\<rparr>) of
        ((n, err), w', s') \<Rightarrow>
          n = 3 \<and> err = None \<and> file w' = Some \<lparr>fd = 4, Name = backup2\<rparr>
          \<and> data s' 1 = replicate 60 7 \<and> data s' 2 = [1, 2, 3]
          \<and> map_of (descriptors s') 3 = Some 1)"
proof -
  let ?g = this_process and ?W = "world1\<lparr>denied := [backup1], ticks := 2\<rparr>"
  let ?w = "app_log1\<lparr>file := None\<rparr>"
  let ?C = "world1\<lparr>denied := [backup1], ticks := 3,
           entries := [(''app.log'', Symlink backup2), (backup2, Regular 2), (backup0, Regular 1)],
           data := (\<lambda>i. [])(1 := replicate 60 7, 2 := []),
           mode := (\<lambda>i. 0)(1 := 420, 2 := 420),
           descriptors := [(4, 2), (3, 1)], next_fd := 5\<rparr>"
  have n1: "next_name ?g app_log1 (world1\<lparr>denied := [backup1]\<rparr>) = backup1"
    by (simp add: app_next_name app_log1_def app_log_def world1_def empty_world_def backup1_def
          appendInt_def utoa.simps)
  have e: "fst (Rotate ?g app_log1 (world1\<lparr>denied := [backup1]\<rparr>)) = Some EACCES"
    unfolding Rotate_def rotate_eq n1 by (simp add: os_OpenFile_def)
  have t: "(world1\<lparr>denied := [backup1]\<rparr>)\<lparr>ticks := Suc (ticks (world1\<lparr>denied := [backup1]\<rparr>))\<rparr> = ?W"
    by (simp add: world1_def empty_world_def)
  have r: "reopened ?g ?w ?W = ?w\<lparr>file := Some \<lparr>fd = 4, Name = backup2\<rparr>, size_w := 0\<rparr>"
    unfolding reopened_def app_names by (simp add: world1_def empty_world_def)
  have b: "base_link ?g ?w ?W = Some (Symlink backup2)"
    unfolding base_link_def app_names
    by (simp add: app_log1_def app_log_def Base_def backup2_def IsPathSeparator_def)
  have p: "perm_of ?w = 420" by (simp add: perm_of_def app_log1_def app_log_def)
  have c: "created ?g ?w ?W = ?C"
    unfolding created_def app_names b p
    by (simp add: world_eval app_log1_def app_log_def Let_def numeral_2_eq_2 numeral_3_eq_3)
  have h3: "available ?W (next_name ?g ?w ?W)"
    unfolding app_names by (simp add: world_eval)
  have h12: "file ?w = None" "EnsureDir ?w \<longrightarrow> Dir (Filename ?w) \<notin> set (denied ?W)"
    and h4: "\<not> is_directory ?W (Filename ?w)"
    by (simp_all add: app_log1_def app_log_def world_eval)
  note h = h12 h3 h4
  have f: "file (?w\<lparr>file := Some \<lparr>fd = 4, Name = backup2\<rparr>, size_w := 0\<rparr>)
      = Some \<lparr>fd = 4, Name = backup2\<rparr>" by simp
  have d: "map_of (descriptors ?C) (fd \<lparr>fd = 4, Name = backup2\<rparr>) = Some 2" by simp
  have l: "length [1, 2, 3 :: byte] \<le> space ?C" by (simp add: world1_def)
  have w: "Write ?g ?w [1, 2, 3] ?W
      = ((3, None), ?w\<lparr>file := Some \<lparr>fd = 4, Name = backup2\<rparr>, size_w := 3\<rparr>, wrote 2 [1, 2, 3] ?C)"
    unfolding Write_closed [OF h] r c Write_open [OF f] write_tail_open [OF f d l]
    by (simp add: app_log1_def app_log_def word_sless_alt)
  from rotate_failure_drops_handle [OF e] t w show ?thesis
    by (simp add: app_log1_def world1_def wrote_def)
qed

section \<open>The timestamp layout sorts by time\<close>

lemma digit_code: "a < 10 \<Longrightarrow> of_char (''0123456789'' ! a) = (48 + a :: nat)"
proof -
  assume "a < 10"
  then have "a = 0 \<or> a = 1 \<or> a = 2 \<or> a = 3 \<or> a = 4 \<or> a = 5 \<or> a = 6 \<or> a = 7 \<or> a = 8 \<or> a = 9"
    by arith
  then show ?thesis by (elim disjE) simp_all
qed

lemma digit_less:
  "a < 10 \<Longrightarrow> b < 10 \<Longrightarrow> (''0123456789'' ! a < ''0123456789'' ! b) = (a < b)"
  by (simp add: less_char_def digit_code)

lemma digit_eq:
  assumes "a < 10" "b < 10"
  shows "(''0123456789'' ! a = ''0123456789'' ! b) = (a = b)"
proof
  assume "''0123456789'' ! a = ''0123456789'' ! b"
  then have "(of_char (''0123456789'' ! a) :: nat) = of_char (''0123456789'' ! b)" by simp
  with assms show "a = b" by (simp add: digit_code)
qed simp

lemma utoa_length: "0 < k \<Longrightarrow> n < 10 ^ k \<Longrightarrow> length (utoa n) \<le> k"
proof (induction k arbitrary: n)
  case 0
  then show ?case by simp
next
  case (Suc k)
  show ?case
  proof (cases "n < 10")
    case True
    then show ?thesis by (simp add: utoa.simps)
  next
    case False
    with Suc.prems have "0 < k" by (cases k) auto
    moreover from Suc.prems have "n div 10 < 10 ^ k" by (simp add: less_mult_imp_div_less mult.commute)
    ultimately have "length (utoa (n div 10)) \<le> k" by (rule Suc.IH)
    with False show ?thesis by (subst utoa.simps) simp
  qed
qed

lemma appendInt_Suc:
  assumes "0 < w" "n < 10 ^ Suc w"
  shows "appendInt n (Suc w) = appendInt (n div 10) w @ [''0123456789'' ! (n mod 10)]"
proof (cases "n < 10")
  case True
  then have n: "n div 10 = 0" "n mod 10 = n" by simp_all
  from assms(1) obtain v where v: "w = Suc v" by (cases w) auto
  have "replicate v CHR ''0'' @ ''0'' = CHR ''0'' # replicate v CHR ''0''"
    by (simp add: replicate_append_same)
  with True n v show ?thesis
    by (simp add: appendInt_def utoa.simps [of n] utoa.simps [of 0])
next
  case False
  from assms have "n div 10 < 10 ^ w" by (simp add: less_mult_imp_div_less mult.commute)
  with assms(1) have "length (utoa (n div 10)) \<le> w" by (intro utoa_length)
  with False show ?thesis
    by (simp add: appendInt_def utoa.simps [of n] Suc_diff_le)
qed

lemma appendInt_length: "0 < w \<Longrightarrow> n < 10 ^ w \<Longrightarrow> length (appendInt n w) = w"
  using utoa_length [of w n] by (simp add: appendInt_def)


lemma append_less_same_length:
  "length a = length b \<Longrightarrow> (a @ x < b @ y) = (a < b \<or> a = b \<and> x < (y :: 'a :: linorder list))"
  by (induction a b rule: list_induct2) auto

lemma less_by_digits:
  "((a::nat) < b) = (a div 10 < b div 10 \<or> a div 10 = b div 10 \<and> a mod 10 < b mod 10)"
proof -
  define qa ra qb rb where "qa = a div 10" and "ra = a mod 10" and "qb = b div 10" and "rb = b mod 10"
  have a: "a = 10 * qa + ra" and b: "b = 10 * qb + rb" and r: "ra < 10" "rb < 10"
    by (simp_all add: qa_def ra_def qb_def rb_def)
  have "(a < b) = (10 * qa + ra < 10 * qb + rb)"
    by (subst a, subst b) (rule refl)
  also have "\<dots> = (qa < qb \<or> qa = qb \<and> ra < rb)"
    using r by auto
  finally show ?thesis
    unfolding qa_def ra_def qb_def rb_def .
qed

lemma eq_by_digits:
  "((a::nat) = b) = (a div 10 = b div 10 \<and> a mod 10 = b mod 10)"
  by (metis div_mult_mod_eq)

lemma appendInt_order:
  "0 < w \<Longrightarrow> a < 10 ^ w \<Longrightarrow> b < 10 ^ w \<Longrightarrow>
     (appendInt a w < appendInt b w) = (a < b) \<and> (appendInt a w = appendInt b w) = (a = b)"
proof (induction w arbitrary: a b)
  case 0
  then show ?case by simp
next
  case (Suc w)
  show ?case
  proof (cases "w = 0")
    case True
    with Suc.prems show ?thesis
      by (simp add: appendInt_def utoa.simps [of a] utoa.simps [of b] digit_less digit_eq)
  next
    case False
    then have w: "0 < w" by simp
    from Suc.prems have d: "a div 10 < 10 ^ w" "b div 10 < 10 ^ w"
      by (simp_all add: less_mult_imp_div_less mult.commute)
    note IH = Suc.IH [OF w d]
    have l: "length (appendInt (a div 10) w) = length (appendInt (b div 10) w)"
      using w d by (simp add: appendInt_length)
    have m: "a mod 10 < 10" "b mod 10 < 10" by simp_all
    note lt = less_by_digits [of a b] and eq = eq_by_digits [of a b]
    show ?thesis
      using IH
      by (simp add: appendInt_Suc [OF w Suc.prems(2)] appendInt_Suc [OF w Suc.prems(3)]
            append_less_same_length [OF l] l digit_less [OF m] digit_eq [OF m] lt eq)
  qed
qed


lemma stamp_length: "fits_layout d \<Longrightarrow> length (stamp d) = 20"
  by (simp add: stamp_def fits_layout_def appendInt_length)

lemma stamp_order:
  assumes "fits_layout a" "fits_layout b"
  shows "(stamp a < stamp b) = earlier a b"
proof -
  from assms have
    y: "Year a < 10 ^ 4" "Year b < 10 ^ 4" and m: "Month a < 10 ^ 2" "Month b < 10 ^ 2"
    and d: "Day a < 10 ^ 2" "Day b < 10 ^ 2" and h: "Hour a < 10 ^ 2" "Hour b < 10 ^ 2"
    and mi: "Minute a < 10 ^ 2" "Minute b < 10 ^ 2" and se: "Second a < 10 ^ 2" "Second b < 10 ^ 2"
    by (simp_all add: fits_layout_def)
  note o = appendInt_order [OF _ y] appendInt_order [OF _ m] appendInt_order [OF _ d]
    appendInt_order [OF _ h] appendInt_order [OF _ mi] appendInt_order [OF _ se]
  note l = appendInt_length [OF _ y(1)] appendInt_length [OF _ y(2)]
    appendInt_length [OF _ m(1)] appendInt_length [OF _ m(2)]
    appendInt_length [OF _ d(1)] appendInt_length [OF _ d(2)]
    appendInt_length [OF _ h(1)] appendInt_length [OF _ h(2)]
    appendInt_length [OF _ mi(1)] appendInt_length [OF _ mi(2)]
    appendInt_length [OF _ se(1)] appendInt_length [OF _ se(2)]
  show "(stamp a < stamp b) = earlier a b"
    by (simp add: stamp_def earlier_def append_less_same_length l o)
qed

lemma fileinfo_order:
  assumes "fits_layout (rotation_date w ta)" "fits_layout (rotation_date w tb)"
  shows "(fst (fileinfo g w ta) < fst (fileinfo g w tb))
     = earlier (rotation_date w ta) (rotation_date w tb)"
proof -
  have l: "length (stamp (rotation_date w ta)) = length (stamp (rotation_date w tb))"
    using assms by (simp add: stamp_length)
  show ?thesis
    using stamp_order [OF assms]
    by (simp add: fileinfo_eq Format_stamp_def append_less_same_length l
          flip: rotation_date_def)
qed

section \<open>Close\<close>

lemma File_Close_closed: "map_of (descriptors (snd (File_Close (Some f) s))) (fd f) = None"
  by (auto simp: File_Close_def map_of_filter_self split: option.splits)

lemma File_Close_open: "map_of (descriptors s) (fd f) = Some i \<Longrightarrow> fst (File_Close (Some f) s) = None"
  by (simp add: File_Close_def)

text \<open>
  C7. \<open>Close\<close> on a writer with a handle closes the handle (its descriptor is no longer
  open, and the result is nil when it was open), sets the counter to 0 and clears the
  handle; on a writer without a handle it returns nil and changes nothing. After any
  \<open>Close\<close> the writer has no handle, so a second \<open>Close\<close> returns nil and changes nothing.
\<close>

theorem Close_closes_and_is_idempotent:
  "(file w = None \<longrightarrow> Close w s = (None, w, s))
   \<and> (\<forall>f. file w = Some f \<longrightarrow>
          Close w s = (fst (File_Close (Some f) s), w\<lparr>file := None, size_w := 0\<rparr>,
                       snd (File_Close (Some f) s))
        \<and> map_of (descriptors (snd (snd (Close w s)))) (fd f) = None
        \<and> (\<forall>i. map_of (descriptors s) (fd f) = Some i \<longrightarrow> fst (Close w s) = None))
   \<and> file (fst (snd (Close w s))) = None
   \<and> Close (fst (snd (Close w s))) (snd (snd (Close w s)))
       = (None, fst (snd (Close w s)), snd (snd (Close w s)))"
  by (cases "file w") (simp_all add: Close_def split_beta File_Close_closed File_Close_open)

theorem Close_closes_and_is_idempotent_witness:
  "Close app_log1 world1
     = (None, app_log1\<lparr>file := None, size_w := 0\<rparr>, world1\<lparr>descriptors := []\<rparr>)
   \<and> Close (app_log1\<lparr>file := None, size_w := 0\<rparr>) (world1\<lparr>descriptors := []\<rparr>)
     = (None, app_log1\<lparr>file := None, size_w := 0\<rparr>, world1\<lparr>descriptors := []\<rparr>)"
proof -
  have f: "file app_log1 = Some \<lparr>fd = 3, Name = backup0\<rparr>"
    by (simp add: app_log1_def)
  have c: "File_Close (Some \<lparr>fd = 3, Name = backup0\<rparr>) world1 = (None, world1\<lparr>descriptors := []\<rparr>)"
    by (simp add: File_Close_def world1_def)
  note T = Close_closes_and_is_idempotent [of app_log1 world1]
  from T f c have 1: "Close app_log1 world1
     = (None, app_log1\<lparr>file := None, size_w := 0\<rparr>, world1\<lparr>descriptors := []\<rparr>)"
    by simp
  from T 1 show ?thesis by simp
qed

section \<open>Backup names\<close>

text \<open>
  C8. The name that \<open>fileinfo\<close> returns for a rotation time \<open>t\<close> is the base path without
  its extension, then the timestamp \<open>.YYYY-MM-DDTHH-MM-SS\<close> of \<open>t\<close> (read in UTC unless
  \<open>LocalTime\<close> is set; 20 characters for a date of a four-digit year), then the optional
  segment \<open>.<hostlabel>\<close>, \<open>.<pid>\<close> or \<open>.<hostlabel>-<pid>\<close>, then the original extension;
  prefix and extension together are the base path. The flags returned are append, create
  and write-only, the permission is \<open>FileMode\<close>, or 0644 (420) when \<open>FileMode\<close> is zero:
  an \<open>OpenFile\<close> with these results on a name that does not exist creates the file, empty
  and with that permission.
\<close>

theorem fileinfo_name_flag_perm:
  "fileinfo g w t =
     (take (length (Filename w) - length (Ext (Filename w))) (Filename w)
        @ Format_stamp (if LocalTime w then t else UTC t)
        @ host_pid_segment g w
        @ Ext (Filename w),
      O_APPEND OR O_CREATE OR O_WRONLY,
      if FileMode w = 0 then 420 else FileMode w)
   \<and> take (length (Filename w) - length (Ext (Filename w))) (Filename w) @ Ext (Filename w)
       = Filename w
   \<and> (fits_layout (rotation_date w t) \<longrightarrow>
         length (Format_stamp (if LocalTime w then t else UTC t)) = 20)
   \<and> (\<forall>s f s2.
         os_OpenFile (fst (fileinfo g w t)) (fst (snd (fileinfo g w t)))
            (snd (snd (fileinfo g w t))) s = (Inr f, s2)
         \<and> map_of (entries s) (fst (fileinfo g w t)) = None \<longrightarrow>
         (\<exists>i. map_of (entries s2) (fst (fileinfo g w t)) = Some (Regular i)
            \<and> mode s2 i = (if FileMode w = 0 then 420 else FileMode w) \<and> data s2 i = []
            \<and> map_of (descriptors s2) (fd f) = Some i))"
proof -
  have "fits_layout (rotation_date w t) \<longrightarrow>
         length (Format_stamp (if LocalTime w then t else UTC t)) = 20"
    using stamp_length [of "rotation_date w t"]
    by (simp add: Format_stamp_def rotation_date_def)
  moreover have "\<forall>s f s2.
         os_OpenFile (fst (fileinfo g w t)) (fst (snd (fileinfo g w t)))
            (snd (snd (fileinfo g w t))) s = (Inr f, s2)
         \<and> map_of (entries s) (fst (fileinfo g w t)) = None \<longrightarrow>
         (\<exists>i. map_of (entries s2) (fst (fileinfo g w t)) = Some (Regular i)
            \<and> mode s2 i = (if FileMode w = 0 then 420 else FileMode w) \<and> data s2 i = []
            \<and> map_of (descriptors s2) (fd f) = Some i)"
  proof (intro allI impI)
    fix s f s2
    assume H: "os_OpenFile (fst (fileinfo g w t)) (fst (snd (fileinfo g w t)))
            (snd (snd (fileinfo g w t))) s = (Inr f, s2)
         \<and> map_of (entries s) (fst (fileinfo g w t)) = None"
    from os_OpenFile_creates [OF H [THEN conjunct1] H [THEN conjunct2]]
    have "\<exists>i. map_of (entries s2) (fst (fileinfo g w t)) = Some (Regular i)
        \<and> mode s2 i = snd (snd (fileinfo g w t)) \<and> data s2 i = []
        \<and> map_of (descriptors s2) (fd f) = Some i" .
    then show "\<exists>i. map_of (entries s2) (fst (fileinfo g w t)) = Some (Regular i)
            \<and> mode s2 i = (if FileMode w = 0 then 420 else FileMode w) \<and> data s2 i = []
            \<and> map_of (descriptors s2) (fd f) = Some i"
      by (simp add: fileinfo_eq)
  qed
  ultimately show ?thesis by (simp add: fileinfo_eq prefix_Ext)
qed

theorem fileinfo_name_flag_perm_witness:
  "fileinfo this_process server_log (Time nov4_local nov4) = (server_name, 1089, 420)
   \<and> length (Format_stamp (UTC (Time nov4_local nov4))) = 20
   \<and> (\<exists>i. map_of (entries (snd (os_OpenFile server_name 1089 420 empty_world))) server_name
             = Some (Regular i)
         \<and> mode (snd (os_OpenFile server_name 1089 420 empty_world)) i = 420
         \<and> data (snd (os_OpenFile server_name 1089 420 empty_world)) i = [])"
proof -
  note T = fileinfo_name_flag_perm [of this_process server_log "Time nov4_local nov4"]
  have 1: "fileinfo this_process server_log (Time nov4_local nov4) = (server_name, 1089, 420)"
    by (subst T [THEN conjunct1])
       (simp add: server_log_def this_process_def nov4_def nov4_local_def UTC_def
          Format_stamp_def stamp_def appendInt_def utoa.simps Ext_def IsPathSeparator_def
          host_pid_segment_def O_APPEND_def O_CREATE_def O_WRONLY_def server_name_def)
  have l: "fits_layout (rotation_date server_log (Time nov4_local nov4))"
    and u: "\<not> LocalTime server_log" and fm: "FileMode server_log = 0"
    by (simp_all add: fits_layout_def rotation_date_def server_log_def UTC_def nov4_def)
  have o: "os_OpenFile server_name 1089 420 empty_world
      = (Inr \<lparr>fd = 3, Name = server_name\<rparr>, snd (os_OpenFile server_name 1089 420 empty_world))
    \<and> map_of (entries empty_world) server_name = None"
  proof -
    have "available empty_world server_name"
      by (simp add: available_def is_directory_def holds_def Split_def IsPathSeparator_def
            server_name_def empty_world_def)
    then have "os_OpenFile server_name 1089 420 empty_world
        = (Inr \<lparr>fd = next_fd empty_world, Name = server_name\<rparr>,
           opened server_name 420 empty_world)"
      by (rule os_OpenFile_available) (simp add: O_CREATE_def)
    then show ?thesis by (simp add: empty_world_def)
  qed
  from T [THEN conjunct2, THEN conjunct2, THEN conjunct1] l u
  have 2: "length (Format_stamp (UTC (Time nov4_local nov4))) = 20" by simp
  from T [THEN conjunct2, THEN conjunct2, THEN conjunct2, rule_format,
      of empty_world "\<lparr>fd = 3, Name = server_name\<rparr>"
         "snd (os_OpenFile server_name 1089 420 empty_world)"] 1 o fm
  have 3: "\<exists>i. map_of (entries (snd (os_OpenFile server_name 1089 420 empty_world))) server_name
             = Some (Regular i)
         \<and> mode (snd (os_OpenFile server_name 1089 420 empty_world)) i = 420
         \<and> data (snd (os_OpenFile server_name 1089 420 empty_world)) i = []"
    by auto
  from 1 2 3 show ?thesis by blast
qed

section \<open>Host identity: label and fingerprint\<close>




section \<open>The fan-out writer\<close>

lemma first_error_append:
  "first_error (xs @ ys) = (if first_error xs = None then first_error ys else first_error xs)"
  by (induction xs) auto

lemma last_error_Cons:
  "last_error (r # rs) = (if last_error rs = None then r else last_error rs)"
  by (simp add: last_error_def first_error_append)

lemma close_each_eq:
  "close_each m err s =
     (case close_all (closers m) s of
        (rs, s') \<Rightarrow> (if last_error rs = None then err else last_error rs, s'))"
proof (induction m err s rule: close_each.induct)
  case (1 err s)
  then show ?case by (simp add: closers_def last_error_def)
next
  case (2 name rest err s)
  then show ?case by (simp add: closers_def)
next
  case (3 name writer rest err s)
  show ?case
  proof (cases "Closer writer")
    case None
    with 3 show ?thesis by (simp add: closers_def)
  next
    case (Some closer)
    obtain err1 s1 where c: "closer s = (err1, s1)" by force
    obtain rs s2 where a: "close_all (closers rest) s1 = (rs, s2)" by force
    from 3(2) [OF Some c [symmetric] refl] Some c a show ?thesis
      by (auto simp: closers_def last_error_Cons)
  qed
qed

text \<open>
  C6. The claim: \<open>Close\<close> closes every writer of the map that can be closed, whatever
  the earlier closes returned, and returns the first error. The code does call the
  \<open>Close\<close> of every such writer, in the order of the iteration; but each error replaces
  the one kept so far, since the assignment \<open>err = err1\<close> lacks the guard \<open>err == nil\<close>
  that the same aggregation has in \<open>WriteEntry\<close>. So \<open>Close\<close> returns the error of the
  last close that failed, or nil when none failed. The witness closes two writers that both
  fail: the result is the error of the second.
\<close>

theorem MultiFileWriter_Close_last_error:
  "MultiFileWriter_Close w s
     = (last_error (fst (close_all (closers (Writes w)) s)),
        snd (close_all (closers (Writes w)) s))"
  by (cases "Writes w = []")
     (simp_all add: MultiFileWriter_Close_def close_each_eq split_beta closers_def
        last_error_def)


theorem MultiFileWriter_Close_last_error_witness:
  "MultiFileWriter_Close failing_pair [] = (Some (Other ''b''), [''close a'', ''close b''])"
  by (subst MultiFileWriter_Close_last_error)
     (simp add: failing_pair_def closers_def recorder_def last_error_def)

theorem MultiFileWriter_Close_first_error_counterexample:
  "fst (MultiFileWriter_Close failing_pair [])
     \<noteq> first_error (fst (close_all (closers (Writes failing_pair)) []))"
  by (simp add: MultiFileWriter_Close_def failing_pair_def closers_def
        recorder_def)

lemma last_count_Cons: "last_count (r # rs) = (if rs = [] then fst r else last_count rs)"
  by (cases rs rule: rev_cases) (auto simp: last_count_def)

lemma route_eq:
  "route m e tags (found, n, err) s =
     (case dispatch_all (List.map_filter (map_of m) tags) e s of
        Inl p \<Rightarrow> Inl p
      | Inr (rs, s') \<Rightarrow>
          Inr ((found \<or> rs \<noteq> [], if rs = [] then n else last_count rs,
                if err \<noteq> None then err else first_error (map snd rs)), s'))"
proof (induction tags arbitrary: found n err s)
  case Nil
  then show ?case by simp
next
  case (Cons tag tags)
  show ?case
  proof (cases "map_of m tag")
    case None
    with Cons show ?thesis by simp
  next
    case (Some wo)
    show ?thesis
    proof (cases wo)
      case None
      with Some show ?thesis by simp
    next
      case (Some writer)
      obtain n1 err1 s1 where d: "WriteEntry writer e s = ((n1, err1), s1)" by (metis surj_pair)
      from Cons [of True n1 "if err1 \<noteq> None \<and> err = None then err1 else err" s1]
        \<open>map_of m tag = Some wo\<close> Some d
      show ?thesis
        by (auto simp: last_count_Cons split: sum.splits)
    qed
  qed
qed

lemma dispatch_all_length:
  "dispatch_all ws e s = Inr (rs, s') \<Longrightarrow> length rs = length ws"
proof (induction ws e s arbitrary: rs s' rule: dispatch_all.induct)
  case (1 e s)
  then show ?case by simp
next
  case (2 ws e s)
  then show ?case by simp
next
  case (3 writer ws e s)
  obtain r s1 where d: "WriteEntry writer e s = (r, s1)"
    by (cases "WriteEntry writer e s") blast
  with 3(2) obtain rs1 where "dispatch_all ws e s1 = Inr (rs1, s')" and "rs = r # rs1"
    by (auto split: sum.splits)
  with 3(1) [OF d [symmetric] refl] show ?case by simp
qed

text \<open>
  C4. \<open>WriteEntry\<close> returns \<open>(0, nil)\<close> without a dispatch when the entry has no tag or
  the map is empty. Otherwise it dispatches to the writer of each tag that the map holds, in
  the order of the tags, and, when no tag is in the map, once to the writer \<open>"default"\<close> if
  there is one; every dispatch is made whatever the earlier ones returned. The byte count
  returned is that of the last dispatch (0 when there was none) and the error is the first
  error of the dispatches. (A dispatch to a nil writer panics.)
\<close>

theorem MultiFileWriter_WriteEntry_routes:
  "MultiFileWriter_WriteEntry w e s =
     (if loggerFiles e = [] \<or> Writes w = [] then Inr ((0, None), s)
      else case dispatch_all (selected (Writes w) (loggerFiles e)) e s of
             Inl p \<Rightarrow> Inl p
           | Inr (rs, s') \<Rightarrow> Inr ((last_count rs, first_error (map snd rs)), s'))"
proof (cases "loggerFiles e = [] \<or> Writes w = []")
  case True
  then show ?thesis by (auto simp: MultiFileWriter_WriteEntry_def)
next
  case False
  show ?thesis
  proof (cases "List.map_filter (map_of (Writes w)) (loggerFiles e)")
    case Nil
    with False show ?thesis
      by (auto simp: MultiFileWriter_WriteEntry_def route_eq selected_def last_count_def
            split: option.splits sum.splits prod.splits)
  next
    case (Cons hit hits)
    have "\<And>rs s'. dispatch_all (hit # hits) e s = Inr (rs, s') \<Longrightarrow> rs \<noteq> []"
      using dispatch_all_length by fastforce
    with Cons False show ?thesis
      by (auto simp: MultiFileWriter_WriteEntry_def route_eq selected_def
            split: sum.splits prod.splits)
  qed
qed

theorem MultiFileWriter_WriteEntry_routes_witness:
  "MultiFileWriter_WriteEntry fanout \<lparr>buf = [1], loggerFiles = [''a'']\<rparr> [] = Inr ((5, None), [''a''])
   \<and> MultiFileWriter_WriteEntry fanout \<lparr>buf = [1], loggerFiles = [''z'']\<rparr> []
       = Inr ((7, None), [''default''])
   \<and> MultiFileWriter_WriteEntry fanout \<lparr>buf = [1], loggerFiles = []\<rparr> [] = Inr ((0, None), [])"
  by (simp only: MultiFileWriter_WriteEntry_routes)
     (simp add: fanout_def selected_def recorder_def last_count_def)

end
